theory Spec2Isabelle
  imports Complex_Main "HOL-Library.Word" "HOL-Library.Signed_Division"
begin

section \<open>Data model of A2\_Sarras\_Asper.cpp\<close>

text \<open>
  The application is a single translation unit, \<^verbatim>\<open>A2_Sarras_Asper.cpp\<close>. Scalars of
  type \<open>float\<close> are a type parameter \<open>'a\<close>: constant data is only copied and transposed,
  and where the source does arithmetic on it the model uses the exact arithmetic of an
  ordered field (rounding to binary32 is not modelled).
\<close>

definition gNumFrameResources :: int where
  "gNumFrameResources = 3"

type_synonym 'a XMFLOAT2 = "'a \<times> 'a"
type_synonym 'a XMFLOAT3 = "'a \<times> 'a \<times> 'a"
type_synonym 'a XMFLOAT4 = "'a \<times> 'a \<times> 'a \<times> 'a"

text \<open>A 4x4 matrix is the tuple of its four rows, so element \<open>(3, 0)\<close> always exists.\<close>

type_synonym 'a XMFLOAT4X4 = "'a XMFLOAT4 \<times> 'a XMFLOAT4 \<times> 'a XMFLOAT4 \<times> 'a XMFLOAT4"

fun XMMatrixTranspose :: "'a XMFLOAT4X4 \<Rightarrow> 'a XMFLOAT4X4" where
  "XMMatrixTranspose
     ((a00, a01, a02, a03), (a10, a11, a12, a13), (a20, a21, a22, a23), (a30, a31, a32, a33)) =
     ((a00, a10, a20, a30), (a01, a11, a21, a31), (a02, a12, a22, a32), (a03, a13, a23, a33))"

datatype error =
    OutOfRange        \<comment> \<open>a write past the end of a mapped buffer or a vector\<close>
  | NullPointer       \<comment> \<open>a dereference of \<open>nullptr\<close>\<close>
  | DxException       \<comment> \<open>thrown by \<open>ThrowIfFailed\<close>\<close>
  | AssertionFailed   \<comment> \<open>a failed \<open>assert\<close>\<close>
  | NotFinite         \<comment> \<open>a float division by zero\<close>
  | LengthError       \<comment> \<open>a vector of negative size\<close>

record 'a RenderItem =
  World :: "'a XMFLOAT4X4"
  TexTransform :: "'a XMFLOAT4X4"
  NumFramesDirty :: int
  ObjCBIndex :: nat

text \<open>
  \<open>Material\<close> is declared in the shared header \<^verbatim>\<open>d3dUtil.h\<close>; these are the fields the
  translation unit reads and writes.
\<close>

record 'a Material =
  MatCBIndex :: int
  DiffuseSrvHeapIndex :: int
  MatNumFramesDirty :: int
  DiffuseAlbedo :: "'a XMFLOAT4"
  FresnelR0 :: "'a XMFLOAT3"
  Roughness :: 'a
  MatTransform :: "'a XMFLOAT4X4"

record 'a ObjectConstants =
  ocWorld :: "'a XMFLOAT4X4"
  ocTexTransform :: "'a XMFLOAT4X4"

record 'a MaterialConstants =
  mcDiffuseAlbedo :: "'a XMFLOAT4"
  mcFresnelR0 :: "'a XMFLOAT3"
  mcRoughness :: 'a
  mcMatTransform :: "'a XMFLOAT4X4"

record 'a Vertex =
  Pos :: "'a XMFLOAT3"
  Normal :: "'a XMFLOAT3"
  TexC :: "'a XMFLOAT2"

text \<open>
  \<open>UploadBuffer<T>::CopyData(elementIndex, data)\<close> copies \<open>data\<close> into element
  \<open>elementIndex\<close> of the mapped buffer without a bounds check. A buffer is the list of
  its elements; a copy outside it is undefined behaviour in the source and the error
  \<open>OutOfRange\<close> here.
\<close>

definition CopyData :: "'c list \<Rightarrow> int \<Rightarrow> 'c \<Rightarrow> error + 'c list" where
  "CopyData buf elementIndex data =
     (if 0 \<le> elementIndex \<and> elementIndex < int (length buf)
      then Inr (buf[nat elementIndex := data])
      else Inl OutOfRange)"

text \<open>
  One \<open>FrameResource\<close> per slot of the ring: the fence value of its last submission
  (0 before the first one) and the slot's copies of the constant and vertex data.
\<close>

record ('a, 'p) FrameResource =
  Fence :: "64 word"
  PassCB :: "'p list"
  ObjectCB :: "'a ObjectConstants list"
  MaterialCB :: "'a MaterialConstants list"
  WavesVB :: "'a Vertex list"

subsection \<open>UpdateObjectCBs and UpdateMaterialCBs\<close>

definition objConstants :: "'a RenderItem \<Rightarrow> 'a ObjectConstants" where
  "objConstants e =
     \<lparr>ocWorld = XMMatrixTranspose (World e),
      ocTexTransform = XMMatrixTranspose (TexTransform e)\<rparr>"

definition matConstants :: "'a Material \<Rightarrow> 'a MaterialConstants" where
  "matConstants mat =
     \<lparr>mcDiffuseAlbedo = DiffuseAlbedo mat,
      mcFresnelR0 = FresnelR0 mat,
      mcRoughness = Roughness mat,
      mcMatTransform = XMMatrixTranspose (MatTransform mat)\<rparr>"

text \<open>
  The body of \<open>for(auto& e : mAllRitems)\<close>: the items still to visit, the buffer of the
  current frame resource, and the items as they are left behind.
\<close>

fun ObjectCBs_loop ::
  "'a ObjectConstants list \<Rightarrow> 'a RenderItem list
     \<Rightarrow> error + ('a ObjectConstants list \<times> 'a RenderItem list)" where
  "ObjectCBs_loop currObjectCB [] = Inr (currObjectCB, [])"
| "ObjectCBs_loop currObjectCB (e # es) =
     (if NumFramesDirty e > 0 then
        (case CopyData currObjectCB (int (ObjCBIndex e)) (objConstants e) of
           Inl err \<Rightarrow> Inl err
         | Inr cb \<Rightarrow>
            (case ObjectCBs_loop cb es of
               Inl err \<Rightarrow> Inl err
             | Inr (cb', es') \<Rightarrow>
                 Inr (cb', e\<lparr>NumFramesDirty := NumFramesDirty e - 1\<rparr> # es')))
      else
        (case ObjectCBs_loop currObjectCB es of
           Inl err \<Rightarrow> Inl err
         | Inr (cb', es') \<Rightarrow> Inr (cb', e # es')))"

text \<open>
  \<open>mMaterials\<close> is an \<open>unordered_map\<close> from names to materials; the loop visits its
  entries in the map's iteration order, which is the order of the association list.
\<close>

fun MaterialCBs_loop ::
  "'a MaterialConstants list \<Rightarrow> (string \<times> 'a Material) list
     \<Rightarrow> error + ('a MaterialConstants list \<times> (string \<times> 'a Material) list)" where
  "MaterialCBs_loop currMaterialCB [] = Inr (currMaterialCB, [])"
| "MaterialCBs_loop currMaterialCB ((name, mat) # es) =
     (if MatNumFramesDirty mat > 0 then
        (case CopyData currMaterialCB (MatCBIndex mat) (matConstants mat) of
           Inl err \<Rightarrow> Inl err
         | Inr cb \<Rightarrow>
            (case MaterialCBs_loop cb es of
               Inl err \<Rightarrow> Inl err
             | Inr (cb', es') \<Rightarrow>
                 Inr (cb', (name, mat\<lparr>MatNumFramesDirty := MatNumFramesDirty mat - 1\<rparr>) # es')))
      else
        (case MaterialCBs_loop currMaterialCB es of
           Inl err \<Rightarrow> Inl err
         | Inr (cb', es') \<Rightarrow> Inr (cb', (name, mat) # es')))"


section \<open>The application state and the frame loop\<close>

text \<open>
  \<open>Waves\<close> is declared in \<^verbatim>\<open>Waves.h\<close>, outside this translation unit. The record
  holds what its accessors return; \<open>Waves::Update\<close> is a parameter of the functions that
  call it.
\<close>

record 'a Waves =
  RowCount :: int
  ColumnCount :: int
  VertexCount :: int
  TriangleCount :: int
  Width :: 'a
  Depth :: 'a
  Position :: "int \<Rightarrow> 'a XMFLOAT3"
  WavesNormal :: "int \<Rightarrow> 'a XMFLOAT3"

text \<open>
  What a frame does to the outside, in the order it does it: the trace is the only part
  of the state that the source does not have.
\<close>

datatype event =
    Acquire nat              \<comment> \<open>the ring moved on to this slot\<close>
  | Blocked nat              \<comment> \<open>the CPU waited for this slot's fence\<close>
  | MarkDirty string         \<comment> \<open>a material was edited\<close>
  | FlushObjects nat         \<comment> \<open>\<open>UpdateObjectCBs\<close> wrote into this slot\<close>
  | FlushMaterials nat       \<comment> \<open>\<open>UpdateMaterialCBs\<close> wrote into this slot\<close>
  | FlushPass nat            \<comment> \<open>\<open>UpdateMainPassCB\<close> wrote into this slot\<close>
  | SimStep                  \<comment> \<open>\<open>mWaves->Update\<close> ran\<close>
  | CopyVertices nat         \<comment> \<open>the wave vertices were copied into this slot\<close>
  | Record nat               \<comment> \<open>the command list was recorded against this slot\<close>
  | Submit nat               \<comment> \<open>the command list was handed to the queue\<close>
  | Publish nat "64 word"    \<comment> \<open>the slot got this fence value and the queue was signalled\<close>

record ('a, 'p) App =
  mFrameResources :: "('a, 'p) FrameResource list"
  mCurrFrameResource :: "nat option"
  mCurrFrameResourceIndex :: int
  mAllRitems :: "'a RenderItem list"
  mMaterials :: "(string \<times> 'a Material) list"
  mWaves :: "'a Waves"
  mWavesVertexBufferGPU :: "nat option"
  mMainPassCB :: 'p
  mCurrentFence :: "64 word"
  clock :: nat
  trace :: "event list"

text \<open>
  The device, seen from the CPU: the value \<open>mFence->GetCompletedValue()\<close> returns at each
  instant of the accelerator's timeline, and whether the calls wrapped in
  \<open>ThrowIfFailed\<close> succeed. \<open>clock\<close> is the instant the CPU has reached.
\<close>

record Device =
  GetCompletedValue :: "nat \<Rightarrow> 64 word"
  SetEventOnCompletion_ok :: bool
  Draw_ok :: bool

definition bind_e :: "error + 'x \<Rightarrow> ('x \<Rightarrow> error + 'y) \<Rightarrow> error + 'y" where
  "bind_e m f = (case m of Inl err \<Rightarrow> Inl err | Inr x \<Rightarrow> f x)"

definition log_event :: "event \<Rightarrow> ('a, 'p) App \<Rightarrow> ('a, 'p) App" where
  "log_event ev s = s\<lparr>trace := trace s @ [ev]\<rparr>"

definition UpdateObjectCBs :: "('a, 'p) App \<Rightarrow> error + ('a, 'p) App" where
  "UpdateObjectCBs s =
     (case mCurrFrameResource s of
        None \<Rightarrow> Inl NullPointer
      | Some i \<Rightarrow>
          if i < length (mFrameResources s) then
            (case ObjectCBs_loop (ObjectCB (mFrameResources s ! i)) (mAllRitems s) of
               Inl err \<Rightarrow> Inl err
             | Inr (cb, es) \<Rightarrow>
                 Inr (log_event (FlushObjects i)
                   (s\<lparr>mFrameResources :=
                        (mFrameResources s)[i := (mFrameResources s ! i)\<lparr>ObjectCB := cb\<rparr>],
                      mAllRitems := es\<rparr>)))
          else Inl OutOfRange)"

definition UpdateMaterialCBs :: "('a, 'p) App \<Rightarrow> error + ('a, 'p) App" where
  "UpdateMaterialCBs s =
     (case mCurrFrameResource s of
        None \<Rightarrow> Inl NullPointer
      | Some i \<Rightarrow>
          if i < length (mFrameResources s) then
            (case MaterialCBs_loop (MaterialCB (mFrameResources s ! i)) (mMaterials s) of
               Inl err \<Rightarrow> Inl err
             | Inr (cb, es) \<Rightarrow>
                 Inr (log_event (FlushMaterials i)
                   (s\<lparr>mFrameResources :=
                        (mFrameResources s)[i := (mFrameResources s ! i)\<lparr>MaterialCB := cb\<rparr>],
                      mMaterials := es\<rparr>)))
          else Inl OutOfRange)"

text \<open>
  \<open>AnimateMaterials\<close> scrolls the texture transform of the material named \<open>water\<close> and
  marks it dirty. \<open>mMaterials["water"]\<close> on a map without that key yields a null
  pointer.
\<close>

fun update_material ::
  "string \<Rightarrow> 'a Material \<Rightarrow> (string \<times> 'a Material) list \<Rightarrow> (string \<times> 'a Material) list" where
  "update_material k m [] = []"
| "update_material k m ((k', m') # es) =
     (if k' = k then (k', m) # es else (k', m') # update_material k m es)"

definition AnimateMaterials ::
  "'a::linordered_field \<Rightarrow> ('a, 'p) App \<Rightarrow> error + ('a, 'p) App" where
  "AnimateMaterials DeltaTime s =
     (case map_of (mMaterials s) ''water'' of
        None \<Rightarrow> Inl NullPointer
      | Some waterMat \<Rightarrow>
          (case MatTransform waterMat of
             (r0, r1, r2, (tu0, tv0, m32, m33)) \<Rightarrow>
               let tu1 = tu0 + (1 / 10) * DeltaTime;
                   tv1 = tv0 + (2 / 100) * DeltaTime;
                   tu = (if tu1 \<ge> 1 then tu1 - 1 else tu1);
                   tv = (if tv1 \<ge> 1 then tv1 - 1 else tv1);
                   waterMat' = waterMat\<lparr>MatTransform := (r0, r1, r2, (tu, tv, m32, m33)),
                                         MatNumFramesDirty := gNumFrameResources\<rparr>
               in Inr (log_event (MarkDirty ''water'')
                    (s\<lparr>mMaterials := update_material ''water'' waterMat' (mMaterials s)\<rparr>))))"

text \<open>
  \<open>UpdateMainPassCB\<close> fills \<open>mMainPassCB\<close> from the camera and the timer and copies it
  into element 0 of the slot's pass buffer. The value it computes is the parameter
  \<open>pass\<close>.
\<close>

definition UpdateMainPassCB :: "'p \<Rightarrow> ('a, 'p) App \<Rightarrow> error + ('a, 'p) App" where
  "UpdateMainPassCB pass s =
     (case mCurrFrameResource s of
        None \<Rightarrow> Inl NullPointer
      | Some i \<Rightarrow>
          if i < length (mFrameResources s) then
            (case CopyData (PassCB (mFrameResources s ! i)) 0 pass of
               Inl err \<Rightarrow> Inl err
             | Inr cb \<Rightarrow>
                 Inr (log_event (FlushPass i)
                   (s\<lparr>mFrameResources :=
                        (mFrameResources s)[i := (mFrameResources s ! i)\<lparr>PassCB := cb\<rparr>],
                      mMainPassCB := pass\<rparr>)))
          else Inl OutOfRange)"

subsection \<open>UpdateWaves\<close>

text \<open>
  The vertex the loop body builds for index \<open>i\<close>. A division by a zero width or depth
  gives an infinity or a NaN in the source, and the error \<open>NotFinite\<close> here.
\<close>

definition wave_vertex :: "'a::linordered_field Waves \<Rightarrow> int \<Rightarrow> error + 'a Vertex" where
  "wave_vertex w i =
     (case Position w i of
        (x, y, z) \<Rightarrow>
          if Width w = 0 \<or> Depth w = 0 then Inl NotFinite
          else Inr \<lparr>Pos = (x, y, z), Normal = WavesNormal w i,
                    TexC = (1 / 2 + x / Width w, 1 / 2 - z / Depth w)\<rparr>)"

text \<open>\<open>for(int i = 0; i < mWaves->VertexCount(); ++i)\<close>, from the current \<open>i\<close> on.\<close>

function WavesVB_loop ::
  "'a::linordered_field Waves \<Rightarrow> int \<Rightarrow> 'a Vertex list \<Rightarrow> error + 'a Vertex list" where
  "WavesVB_loop w i currWavesVB =
     (if i < VertexCount w then
        (case wave_vertex w i of
           Inl err \<Rightarrow> Inl err
         | Inr v \<Rightarrow>
            (case CopyData currWavesVB i v of
               Inl err \<Rightarrow> Inl err
             | Inr vb \<Rightarrow> WavesVB_loop w (i + 1) vb))
      else Inr currWavesVB)"
  by pat_completeness auto
termination
  by (relation "measure (\<lambda>(w, i, vb). nat (VertexCount w - i))") auto

definition UpdateWaves ::
  "('a Waves \<Rightarrow> 'a \<Rightarrow> 'a Waves) \<Rightarrow> 'a::linordered_field \<Rightarrow> ('a, 'p) App
     \<Rightarrow> error + ('a, 'p) App" where
  "UpdateWaves Waves_Update DeltaTime s =
     (let s1 = log_event SimStep (s\<lparr>mWaves := Waves_Update (mWaves s) DeltaTime\<rparr>)
      in case mCurrFrameResource s1 of
           None \<Rightarrow> Inl NullPointer
         | Some i \<Rightarrow>
             if i < length (mFrameResources s1) then
               (case WavesVB_loop (mWaves s1) 0 (WavesVB (mFrameResources s1 ! i)) of
                  Inl err \<Rightarrow> Inl err
                | Inr vb \<Rightarrow>
                    Inr (log_event (CopyVertices i)
                      (s1\<lparr>mFrameResources :=
                            (mFrameResources s1)[i := (mFrameResources s1 ! i)\<lparr>WavesVB := vb\<rparr>],
                          mWavesVertexBufferGPU := Some i\<rparr>)))
             else Inl OutOfRange)"

subsection \<open>Update and Draw\<close>

text \<open>
  \<open>WaitForSingleObject(eventHandle, INFINITE)\<close> on the event that
  \<open>SetEventOnCompletion(fence, eventHandle)\<close> arms: the CPU resumes at the first instant,
  from \<open>t\<close> on, at which the completed value has reached \<open>fence\<close>. There is no timeout:
  a wait that never ends is the value \<open>None\<close>.
\<close>

partial_function (option) WaitForSingleObject :: "Device \<Rightarrow> 64 word \<Rightarrow> nat \<Rightarrow> nat option" where
  "WaitForSingleObject dev fence t =
     (if fence \<le> GetCompletedValue dev t then Some t
      else WaitForSingleObject dev fence (t + 1))"

declare WaitForSingleObject.simps [code]

text \<open>The five calls that end \<open>Update\<close>, in the order of the source.\<close>

definition Update_calls ::
  "('a Waves \<Rightarrow> 'a \<Rightarrow> 'a Waves) \<Rightarrow> 'p \<Rightarrow> 'a::linordered_field \<Rightarrow> ('a, 'p) App
     \<Rightarrow> error + ('a, 'p) App" where
  "Update_calls Waves_Update pass DeltaTime s =
     bind_e (AnimateMaterials DeltaTime s) (\<lambda>s.
     bind_e (UpdateObjectCBs s) (\<lambda>s.
     bind_e (UpdateMaterialCBs s) (\<lambda>s.
     bind_e (UpdateMainPassCB pass s) (\<lambda>s.
     UpdateWaves Waves_Update DeltaTime s))))"

text \<open>
  \<open>Update\<close>: \<open>OnKeyboardInput\<close> is empty and \<open>UpdateCamera\<close> only moves the camera, whose
  state reaches the buffers through \<open>pass\<close>. The ring index is an \<open>int\<close> and \<open>%\<close>
  truncates; \<open>mFrameResources[...]\<close> outside the vector is the error \<open>OutOfRange\<close>.
  The result is \<open>None\<close> when the fence wait never ends, \<open>Some (Inl e)\<close> when the frame
  is abandoned with an error, \<open>Some (Inr s')\<close> when \<open>Update\<close> returns.
\<close>

definition Update ::
  "Device \<Rightarrow> ('a Waves \<Rightarrow> 'a \<Rightarrow> 'a Waves) \<Rightarrow> 'p \<Rightarrow> 'a::linordered_field \<Rightarrow> ('a, 'p) App
     \<Rightarrow> (error + ('a, 'p) App) option" where
  "Update dev Waves_Update pass DeltaTime s =
     (let idx = (mCurrFrameResourceIndex s + 1) smod gNumFrameResources in
      if idx < 0 \<or> int (length (mFrameResources s)) \<le> idx then Some (Inl OutOfRange)
      else
        let i = nat idx;
            s1 = log_event (Acquire i)
                   (s\<lparr>mCurrFrameResourceIndex := idx, mCurrFrameResource := Some i\<rparr>);
            fence = Fence (mFrameResources s1 ! i)
        in if fence \<noteq> 0 \<and> GetCompletedValue dev (clock s1) < fence then
             if SetEventOnCompletion_ok dev then
               (case WaitForSingleObject dev fence (clock s1) of
                  None \<Rightarrow> None
                | Some t \<Rightarrow>
                    Some (Update_calls Waves_Update pass DeltaTime
                            (log_event (Blocked i) (s1\<lparr>clock := t\<rparr>))))
             else Some (Inl DxException)
           else Some (Update_calls Waves_Update pass DeltaTime s1))"

text \<open>
  \<open>Draw\<close> records the command list against the current frame resource, hands it to
  the queue, presents, and then marks the slot: \<open>mCurrFrameResource->Fence =
  ++mCurrentFence\<close> on an unsigned 64-bit counter, followed by \<open>Signal\<close>. Any of its
  \<open>ThrowIfFailed\<close> calls failing abandons the frame.
\<close>

definition Draw :: "Device \<Rightarrow> ('a, 'p) App \<Rightarrow> error + ('a, 'p) App" where
  "Draw dev s =
     (case mCurrFrameResource s of
        None \<Rightarrow> Inl NullPointer
      | Some i \<Rightarrow>
          if i < length (mFrameResources s) then
            if Draw_ok dev then
              let s1 = log_event (Submit i) (log_event (Record i) s);
                  fence = mCurrentFence s1 + 1
              in Inr (log_event (Publish i fence)
                   (s1\<lparr>mCurrentFence := fence,
                       mFrameResources :=
                         (mFrameResources s1)[i := (mFrameResources s1 ! i)\<lparr>Fence := fence\<rparr>]\<rparr>))
            else Inl DxException
          else Inl OutOfRange)"

text \<open>
  Modelled from the spec: the caller of \<open>Update\<close> and \<open>Draw\<close> is \<open>D3DApp::Run\<close>, in
  the shared \<^verbatim>\<open>d3dApp.cpp\<close>. One frame is one \<open>Update\<close> followed by one \<open>Draw\<close> (the
  spec's tick prepares the slot and then hands it to the renderer and publishes it); an
  error ends the frame loop.
\<close>

definition Frame ::
  "Device \<Rightarrow> ('a Waves \<Rightarrow> 'a \<Rightarrow> 'a Waves) \<Rightarrow> 'p \<Rightarrow> 'a::linordered_field \<Rightarrow> ('a, 'p) App
     \<Rightarrow> (error + ('a, 'p) App) option" where
  "Frame dev Waves_Update pass DeltaTime s =
     (case Update dev Waves_Update pass DeltaTime s of
        None \<Rightarrow> None
      | Some (Inl err) \<Rightarrow> Some (Inl err)
      | Some (Inr s1) \<Rightarrow> Some (Draw dev s1))"


text \<open>\<open>happens_before a b evs\<close>: after the first \<open>a\<close> in the trace there is a \<open>b\<close>.\<close>

fun happens_before :: "event \<Rightarrow> event \<Rightarrow> event list \<Rightarrow> bool" where
  "happens_before a b [] = False"
| "happens_before a b (ev # evs) = (if ev = a then b \<in> set evs else happens_before a b evs)"

subsection \<open>Flushing a slot\<close>

text \<open>
  A flush of slot \<open>i\<close>: the current frame resource is slot \<open>i\<close>, and \<open>UpdateObjectCBs\<close>
  and \<open>UpdateMaterialCBs\<close> run, as they do in \<open>Update\<close>.
\<close>

definition Flush :: "nat \<Rightarrow> ('a, 'p) App \<Rightarrow> error + ('a, 'p) App" where
  "Flush i s = bind_e (UpdateObjectCBs (s\<lparr>mCurrFrameResource := Some i\<rparr>)) UpdateMaterialCBs"

fun Flushes :: "nat list \<Rightarrow> ('a, 'p) App \<Rightarrow> error + ('a, 'p) App" where
  "Flushes [] s = Inr s"
| "Flushes (i # slots) s = bind_e (Flush i s) (Flushes slots)"

text \<open>Every constant-buffer index of the scene lies inside every slot's buffer.\<close>

definition cbs_in_range :: "('a, 'p) App \<Rightarrow> bool" where
  "cbs_in_range s \<longleftrightarrow>
     (\<forall>e\<in>set (mAllRitems s). \<forall>fr\<in>set (mFrameResources s).
        ObjCBIndex e < length (ObjectCB fr)) \<and>
     (\<forall>m\<in>set (mMaterials s). \<forall>fr\<in>set (mFrameResources s).
        0 \<le> MatCBIndex (snd m) \<and> MatCBIndex (snd m) < int (length (MaterialCB fr)))"

text \<open>
  The two loops are the same countdown over different entries. The proofs are done once,
  on this common form, and carried over to \<open>ObjectCBs_loop\<close> and \<open>MaterialCBs_loop\<close>.
\<close>

fun dirty_loop ::
  "('e \<Rightarrow> int) \<Rightarrow> ('e \<Rightarrow> 'e) \<Rightarrow> ('e \<Rightarrow> int) \<Rightarrow> ('e \<Rightarrow> 'c) \<Rightarrow> 'c list \<Rightarrow> 'e list
     \<Rightarrow> error + ('c list \<times> 'e list)" where
  "dirty_loop dirty dec idx payload cb [] = Inr (cb, [])"
| "dirty_loop dirty dec idx payload cb (e # es) =
     (if dirty e > 0 then
        (case CopyData cb (idx e) (payload e) of
           Inl err \<Rightarrow> Inl err
         | Inr cb1 \<Rightarrow>
            (case dirty_loop dirty dec idx payload cb1 es of
               Inl err \<Rightarrow> Inl err
             | Inr (cb', es') \<Rightarrow> Inr (cb', dec e # es')))
      else
        (case dirty_loop dirty dec idx payload cb es of
           Inl err \<Rightarrow> Inl err
         | Inr (cb', es') \<Rightarrow> Inr (cb', e # es')))"

definition countdown_flush ::
  "('e \<Rightarrow> int) \<Rightarrow> ('e \<Rightarrow> 'e) \<Rightarrow> ('e \<Rightarrow> int) \<Rightarrow> ('e \<Rightarrow> 'c) \<Rightarrow> nat \<Rightarrow> 'c list list \<Rightarrow> 'e list
     \<Rightarrow> error + ('c list list \<times> 'e list)" where
  "countdown_flush dirty dec idx payload i bufs es =
     (if i < length bufs then
        (case dirty_loop dirty dec idx payload (bufs ! i) es of
           Inl err \<Rightarrow> Inl err
         | Inr (cb, es') \<Rightarrow> Inr (bufs[i := cb], es'))
      else Inl OutOfRange)"

fun countdown_flushes ::
  "('e \<Rightarrow> int) \<Rightarrow> ('e \<Rightarrow> 'e) \<Rightarrow> ('e \<Rightarrow> int) \<Rightarrow> ('e \<Rightarrow> 'c) \<Rightarrow> nat list \<Rightarrow> 'c list list \<Rightarrow> 'e list
     \<Rightarrow> error + ('c list list \<times> 'e list)" where
  "countdown_flushes dirty dec idx payload [] bufs es = Inr (bufs, es)"
| "countdown_flushes dirty dec idx payload (i # slots) bufs es =
     (case countdown_flush dirty dec idx payload i bufs es of
        Inl err \<Rightarrow> Inl err
      | Inr (bufs', es') \<Rightarrow> countdown_flushes dirty dec idx payload slots bufs' es')"

abbreviation ritem_dec :: "'a RenderItem \<Rightarrow> 'a RenderItem" where
  "ritem_dec e \<equiv> e\<lparr>NumFramesDirty := NumFramesDirty e - 1\<rparr>"

abbreviation ritem_idx :: "'a RenderItem \<Rightarrow> int" where
  "ritem_idx e \<equiv> int (ObjCBIndex e)"

abbreviation mat_dirty :: "string \<times> 'a Material \<Rightarrow> int" where
  "mat_dirty e \<equiv> MatNumFramesDirty (snd e)"

abbreviation mat_dec :: "string \<times> 'a Material \<Rightarrow> string \<times> 'a Material" where
  "mat_dec e \<equiv> (fst e, (snd e)\<lparr>MatNumFramesDirty := MatNumFramesDirty (snd e) - 1\<rparr>)"

abbreviation mat_idx :: "string \<times> 'a Material \<Rightarrow> int" where
  "mat_idx e \<equiv> MatCBIndex (snd e)"

abbreviation mat_payload :: "string \<times> 'a Material \<Rightarrow> 'a MaterialConstants" where
  "mat_payload e \<equiv> matConstants (snd e)"

subsection \<open>Names for the statements about the frame loop\<close>

text \<open>The slot \<open>Update\<close> moves to: \<open>(mCurrFrameResourceIndex + 1) % gNumFrameResources\<close>.\<close>

definition next_slot :: "('a, 'p) App \<Rightarrow> nat" where
  "next_slot s = nat ((mCurrFrameResourceIndex s + 1) smod gNumFrameResources)"

text \<open>The fence value \<open>Update\<close> finds on that slot.\<close>

definition next_fence :: "('a, 'p) App \<Rightarrow> 64 word" where
  "next_fence s = Fence (mFrameResources s ! next_slot s)"

text \<open>The state in which the slot has been taken, before any wait.\<close>

definition acquired :: "('a, 'p) App \<Rightarrow> ('a, 'p) App" where
  "acquired s =
     log_event (Acquire (next_slot s))
       (s\<lparr>mCurrFrameResourceIndex := (mCurrFrameResourceIndex s + 1) smod gNumFrameResources,
          mCurrFrameResource := Some (next_slot s)\<rparr>)"

text \<open>What the constant-buffer and wave updates leave alone.\<close>

definition ctl :: "('a, 'p) App \<Rightarrow> nat \<times> 64 word \<times> 64 word list \<times> nat option \<times> int \<times> nat" where
  "ctl s = (clock s, mCurrentFence s, map Fence (mFrameResources s), mCurrFrameResource s,
            mCurrFrameResourceIndex s, length (mFrameResources s))"


section \<open>BuildWavesGeometry\<close>

text \<open>
  \<open>indices[k] = v\<close> on a \<open>std::vector<std::uint16_t>\<close>: the \<open>int\<close> is converted to 16
  bits, and a subscript outside the vector is undefined behaviour in the source and the
  error \<open>OutOfRange\<close> here.
\<close>

definition vector_set :: "16 word list \<Rightarrow> int \<Rightarrow> int \<Rightarrow> error + 16 word list" where
  "vector_set indices k v =
     (if 0 \<le> k \<and> k < int (length indices) then Inr (indices[nat k := word_of_int v])
      else Inl OutOfRange)"

text \<open>The six assignments of one quad.\<close>

definition quad :: "int \<Rightarrow> int \<Rightarrow> int \<Rightarrow> int \<Rightarrow> 16 word list \<Rightarrow> error + 16 word list" where
  "quad n i j k indices =
     bind_e (vector_set indices k (i * n + j)) (\<lambda>indices.
     bind_e (vector_set indices (k + 1) (i * n + j + 1)) (\<lambda>indices.
     bind_e (vector_set indices (k + 2) ((i + 1) * n + j)) (\<lambda>indices.
     bind_e (vector_set indices (k + 3) ((i + 1) * n + j)) (\<lambda>indices.
     bind_e (vector_set indices (k + 4) (i * n + j + 1)) (\<lambda>indices.
     vector_set indices (k + 5) ((i + 1) * n + j + 1))))))"

text \<open>\<open>for(int j = 0; j < n - 1; ++j)\<close>, from the current \<open>j\<close> and \<open>k\<close> on.\<close>

function quads_of_row ::
  "int \<Rightarrow> int \<Rightarrow> int \<Rightarrow> int \<Rightarrow> 16 word list \<Rightarrow> error + (int \<times> 16 word list)" where
  "quads_of_row n i j k indices =
     (if j < n - 1 then
        (case quad n i j k indices of
           Inl err \<Rightarrow> Inl err
         | Inr indices' \<Rightarrow> quads_of_row n i (j + 1) (k + 6) indices')
      else Inr (k, indices))"
  by pat_completeness auto
termination
  by (relation "measure (\<lambda>(n, i, j, k, indices). nat (n - 1 - j))") auto

text \<open>\<open>for(int i = 0; i < m - 1; ++i)\<close>, from the current \<open>i\<close> and \<open>k\<close> on.\<close>

function quads_of_grid ::
  "int \<Rightarrow> int \<Rightarrow> int \<Rightarrow> int \<Rightarrow> 16 word list \<Rightarrow> error + (int \<times> 16 word list)" where
  "quads_of_grid m n i k indices =
     (if i < m - 1 then
        (case quads_of_row n i 0 k indices of
           Inl err \<Rightarrow> Inl err
         | Inr (k', indices') \<Rightarrow> quads_of_grid m n (i + 1) k' indices')
      else Inr (k, indices))"
  by pat_completeness auto
termination
  by (relation "measure (\<lambda>(m, n, i, k, indices). nat (m - 1 - i))") auto

text \<open>
  Of the geometry named \<open>waterGeo\<close> that \<open>BuildWavesGeometry\<close> stores, the index
  buffer and the index count of the submesh \<open>grid\<close>.
\<close>

record MeshGeometry =
  IndexBufferCPU :: "16 word list"
  IndexCount :: nat

text \<open>
  The vector has \<open>3 * TriangleCount\<close> zero elements (a negative count cannot be
  allocated); the \<open>assert\<close> is the one of the source. The second component is the final
  value of \<open>k\<close>, the number of entries the loops have assigned.
\<close>

definition BuildWavesGeometry :: "'a Waves \<Rightarrow> error + (MeshGeometry \<times> int)" where
  "BuildWavesGeometry w =
     (if 3 * TriangleCount w < 0 then Inl LengthError
      else if \<not> VertexCount w < 0xffff then Inl AssertionFailed
      else
        (case quads_of_grid (RowCount w) (ColumnCount w) 0 0
                (replicate (nat (3 * TriangleCount w)) 0) of
           Inl err \<Rightarrow> Inl err
         | Inr (k, indices) \<Rightarrow>
             Inr (\<lparr>IndexBufferCPU = indices, IndexCount = length indices\<rparr>, k)))"

text \<open>The value the loops assign to entry \<open>p\<close> of the index vector of a grid with \<open>n\<close> columns.\<close>

definition grid_index :: "int \<Rightarrow> int \<Rightarrow> int" where
  "grid_index n p =
     (let q = p div 6; i = q div (n - 1); j = q mod (n - 1); r = p mod 6 in
      if r = 0 then i * n + j
      else if r = 1 then i * n + j + 1
      else if r = 2 then (i + 1) * n + j
      else if r = 3 then (i + 1) * n + j
      else if r = 4 then i * n + j + 1
      else (i + 1) * n + j + 1)"

section \<open>Binary32 arithmetic\<close>

text \<open>
  The spec gives the height field's times and heights the type \<open>f32\<close>. A binary32 value
  is a finite rational, an infinity or a NaN; the sign of a zero is not kept, as no sum,
  product or comparison below depends on it. \<open>Finite x\<close> is a value of the format when
  \<open>round32 x = Finite x\<close>.
\<close>

datatype f32 = Finite rat | PInf | NInf | NaN













section \<open>The height field\<close>

text \<open>
  Modelled from the spec: \<open>Waves::Update\<close> and \<open>Waves::Disturb\<close> are defined in
  \<^verbatim>\<open>Waves.cpp\<close>, which is not among the sources. The model follows sections 3 and 4.3
  of the spec: a grid of \<open>rows * cols\<close> heights in three time layers, stored row by row,
  a fixed time step \<open>dt\<close> and the time accumulated towards the next step, all of them
  binary32 values.
\<close>

record HeightField =
  rows :: int
  cols :: int
  spacing :: f32
  dt :: f32
  waveSpeed :: f32
  damping :: f32
  heights_prev :: "f32 list"
  heights_curr :: "f32 list"
  heights_next :: "f32 list"
  accumulatedTime :: f32

definition cell :: "HeightField \<Rightarrow> int \<Rightarrow> int \<Rightarrow> nat" where
  "cell h i j = nat (i * cols h + j)"




text \<open>
  Modelled from the spec: one discrete step computes, for every interior sample, the next
  height as a weighted combination of the sample's two prior heights and of its four
  orthogonal neighbours in the current layer. The spec leaves the weights to the
  configuration: \<open>stencil\<close> is that combination, applied to the height two steps ago, the
  current height and the neighbours above, below, left and right.
\<close>

definition next_height ::
  "(f32 \<Rightarrow> f32 \<Rightarrow> f32 \<Rightarrow> f32 \<Rightarrow> f32 \<Rightarrow> f32 \<Rightarrow> f32) \<Rightarrow> HeightField \<Rightarrow> int \<Rightarrow> int \<Rightarrow> f32" where
  "next_height stencil h i j =
     stencil (heights_prev h ! cell h i j) (heights_curr h ! cell h i j)
       (heights_curr h ! cell h (i - 1) j) (heights_curr h ! cell h (i + 1) j)
       (heights_curr h ! cell h i (j - 1)) (heights_curr h ! cell h i (j + 1))"

text \<open>The interior samples of row \<open>i\<close> from column \<open>j\<close> on, written into the new layer.\<close>

function step_row ::
  "(f32 \<Rightarrow> f32 \<Rightarrow> f32 \<Rightarrow> f32 \<Rightarrow> f32 \<Rightarrow> f32 \<Rightarrow> f32) \<Rightarrow> HeightField \<Rightarrow> int \<Rightarrow> int \<Rightarrow> f32 list
     \<Rightarrow> f32 list" where
  "step_row stencil h i j layer =
     (if j < cols h - 1 then
        step_row stencil h i (j + 1) (layer[cell h i j := next_height stencil h i j])
      else layer)"
  by pat_completeness auto
termination
  by (relation "measure (\<lambda>(stencil, h, i, j, layer). nat (cols h - 1 - j))") auto

declare step_row.simps [simp del]

text \<open>The interior rows from row \<open>i\<close> on.\<close>

function step_rows ::
  "(f32 \<Rightarrow> f32 \<Rightarrow> f32 \<Rightarrow> f32 \<Rightarrow> f32 \<Rightarrow> f32 \<Rightarrow> f32) \<Rightarrow> HeightField \<Rightarrow> int \<Rightarrow> f32 list \<Rightarrow> f32 list" where
  "step_rows stencil h i layer =
     (if i < rows h - 1 then step_rows stencil h (i + 1) (step_row stencil h i 1 layer)
      else layer)"
  by pat_completeness auto
termination
  by (relation "measure (\<lambda>(stencil, h, i, layer). nat (rows h - 1 - i))") auto

declare step_rows.simps [simp del]

text \<open>
  Modelled from the spec: the new layer is written into the storage of \<open>heights[t+1]\<close>,
  interior samples only, and the three layers are rotated: the current layer becomes the
  previous one, the new one the current one, and the storage of the oldest is what the
  next step writes into.
\<close>

definition simulate ::
  "(f32 \<Rightarrow> f32 \<Rightarrow> f32 \<Rightarrow> f32 \<Rightarrow> f32 \<Rightarrow> f32 \<Rightarrow> f32) \<Rightarrow> HeightField \<Rightarrow> HeightField" where
  "simulate stencil h =
     h\<lparr>heights_prev := heights_curr h,
       heights_curr := step_rows stencil h 1 (heights_next h),
       heights_next := heights_prev h\<rparr>"














section \<open>A small scene\<close>

text \<open>
  Two render items, the materials \<open>grass\<close> and \<open>water\<close>, a 2x2 wave grid and a ring of
  three frame resources, as \<open>Initialize\<close> leaves them: every entry dirty in all three
  slots, no slot submitted yet.
\<close>

definition Identity4x4 :: "rat XMFLOAT4X4" where
  "Identity4x4 = ((1, 0, 0, 0), (0, 1, 0, 0), (0, 0, 1, 0), (0, 0, 0, 1))"

definition example_ritems :: "rat RenderItem list" where
  "example_ritems =
     [\<lparr>World = Identity4x4, TexTransform = Identity4x4, NumFramesDirty = 3, ObjCBIndex = 0\<rparr>,
      \<lparr>World = ((2, 0, 0, 0), (0, 2, 0, 0), (0, 0, 2, 0), (5, 1, -7, 1)),
       TexTransform = Identity4x4, NumFramesDirty = 3, ObjCBIndex = 1\<rparr>]"

definition example_materials :: "(string \<times> rat Material) list" where
  "example_materials =
     [(''grass'',
       \<lparr>MatCBIndex = 0, DiffuseSrvHeapIndex = 0, MatNumFramesDirty = 3,
        DiffuseAlbedo = (1, 1, 1, 1), FresnelR0 = (1 / 100, 1 / 100, 1 / 100),
        Roughness = 1 / 8, MatTransform = Identity4x4\<rparr>),
      (''water'',
       \<lparr>MatCBIndex = 1, DiffuseSrvHeapIndex = 1, MatNumFramesDirty = 3,
        DiffuseAlbedo = (1, 1, 1, 1 / 2), FresnelR0 = (1 / 10, 1 / 10, 1 / 10),
        Roughness = 0, MatTransform = Identity4x4\<rparr>)]"

definition example_position :: "int \<Rightarrow> rat XMFLOAT3" where
  "example_position i =
     (if i = 0 then (- 1 / 2, 0, 1 / 2)
      else if i = 1 then (1 / 2, 0, 1 / 2)
      else if i = 2 then (- 1 / 2, 0, - 1 / 2)
      else (1 / 2, 0, - 1 / 2))"

definition example_normal :: "int \<Rightarrow> rat XMFLOAT3" where
  "example_normal i = (0, 1, 0)"

definition example_waves :: "rat Waves" where
  "example_waves =
     \<lparr>RowCount = 2, ColumnCount = 2, VertexCount = 4, TriangleCount = 2,
      Width = 2, Depth = 2, Position = example_position, WavesNormal = example_normal\<rparr>"

definition example_frame :: "(rat, unit) FrameResource" where
  "example_frame =
     \<lparr>Fence = 0, PassCB = [()],
      ObjectCB = replicate 2 \<lparr>ocWorld = Identity4x4, ocTexTransform = Identity4x4\<rparr>,
      MaterialCB = replicate 2
        \<lparr>mcDiffuseAlbedo = (0, 0, 0, 0), mcFresnelR0 = (0, 0, 0), mcRoughness = 0,
         mcMatTransform = Identity4x4\<rparr>,
      WavesVB = replicate 4 \<lparr>Pos = (0, 0, 0), Normal = (0, 0, 0), TexC = (0, 0)\<rparr>\<rparr>"

definition example_app :: "(rat, unit) App" where
  "example_app =
     \<lparr>mFrameResources = [example_frame, example_frame, example_frame],
      mCurrFrameResource = None, mCurrFrameResourceIndex = 0,
      mAllRitems = example_ritems, mMaterials = example_materials,
      mWaves = example_waves, mWavesVertexBufferGPU = None, mMainPassCB = (),
      mCurrentFence = 0, clock = 0, trace = []\<rparr>"

text \<open>
  Devices: one that has completed everything it was given, one whose completed value
  stays at 0, and one on which \<open>SetEventOnCompletion\<close> fails.
\<close>

definition example_device :: Device where
  "example_device =
     \<lparr>GetCompletedValue = (\<lambda>t. 3), SetEventOnCompletion_ok = True, Draw_ok = True\<rparr>"

definition stuck_device :: Device where
  "stuck_device =
     \<lparr>GetCompletedValue = (\<lambda>t. 0), SetEventOnCompletion_ok = True, Draw_ok = True\<rparr>"

definition unarmed_device :: Device where
  "unarmed_device =
     \<lparr>GetCompletedValue = (\<lambda>t. 0), SetEventOnCompletion_ok = False, Draw_ok = True\<rparr>"

definition slow_device :: Device where
  "slow_device =
     \<lparr>GetCompletedValue = (\<lambda>t. if t < 5 then 0 else 3),
      SetEventOnCompletion_ok = True, Draw_ok = True\<rparr>"

definition example_Waves_Update :: "rat Waves \<Rightarrow> rat \<Rightarrow> rat Waves" where
  "example_Waves_Update w DeltaTime = w"

text \<open>The scene after three frames: slot 1 is the next one, submitted with fence 1.\<close>

definition example_busy :: "(rat, unit) App" where
  "example_busy =
     example_app
       \<lparr>mFrameResources :=
          [example_frame\<lparr>Fence := 3\<rparr>, example_frame\<lparr>Fence := 1\<rparr>, example_frame\<lparr>Fence := 2\<rparr>],
        mCurrFrameResource := Some 0, mCurrFrameResourceIndex := 0, mCurrentFence := 3,
        trace := [Publish 1 1, Publish 2 2, Publish 0 3]\<rparr>"

text \<open>The trace of the first frame of the scene.\<close>

definition example_frame_trace :: "event list" where
  "example_frame_trace =
     (case Frame example_device example_Waves_Update () (1 / 60) example_app of
        Some (Inr s') \<Rightarrow> trace s'
      | _ \<Rightarrow> [])"







section \<open>Dirty constants reach every slot\<close>

lemma ObjectCBs_loop_dirty_loop:
  "ObjectCBs_loop cb es =
     dirty_loop NumFramesDirty (\<lambda>e. e\<lparr>NumFramesDirty := NumFramesDirty e - 1\<rparr>)
       (\<lambda>e. int (ObjCBIndex e)) objConstants cb es"
  by (induction es arbitrary: cb) (auto split: sum.splits)

lemma MaterialCBs_loop_dirty_loop:
  "MaterialCBs_loop cb es =
     dirty_loop (\<lambda>e. MatNumFramesDirty (snd e))
       (\<lambda>e. (fst e, (snd e)\<lparr>MatNumFramesDirty := MatNumFramesDirty (snd e) - 1\<rparr>))
       (\<lambda>e. MatCBIndex (snd e)) (\<lambda>e. matConstants (snd e)) cb es"
  by (induction es arbitrary: cb) (auto split: sum.splits)



lemma CopyData_Inr:
  "CopyData buf i v = Inr buf' \<longleftrightarrow> 0 \<le> i \<and> i < int (length buf) \<and> buf' = buf[nat i := v]"
  by (auto simp: CopyData_def)

lemma CopyData_in_range:
  "0 \<le> i \<Longrightarrow> i < int (length buf) \<Longrightarrow> CopyData buf i v = Inr (buf[nat i := v])"
  by (simp add: CopyData_def)

lemma dirty_loop_ok:
  "(\<forall>e\<in>set es. 0 \<le> idx e \<and> idx e < int (length cb)) \<Longrightarrow>
   \<exists>cb' es'. dirty_loop dirty dec idx payload cb es = Inr (cb', es')"
proof (induction es arbitrary: cb)
  case Nil
  show ?case by simp
next
  case (Cons e es)
  show ?case
  proof (cases "dirty e > 0")
    case True
    have c: "CopyData cb (idx e) (payload e) = Inr (cb[nat (idx e) := payload e])"
      using Cons.prems by (simp add: CopyData_in_range)
    have "\<forall>x\<in>set es. 0 \<le> idx x \<and> idx x < int (length (cb[nat (idx e) := payload e]))"
      using Cons.prems by simp
    from Cons.IH[OF this] obtain cb' es' where
      "dirty_loop dirty dec idx payload (cb[nat (idx e) := payload e]) es = Inr (cb', es')"
      by blast
    with True c show ?thesis by simp
  next
    case False
    have "\<forall>x\<in>set es. 0 \<le> idx x \<and> idx x < int (length cb)"
      using Cons.prems by simp
    from Cons.IH[OF this] obtain cb' es' where
      "dirty_loop dirty dec idx payload cb es = Inr (cb', es')"
      by blast
    with False show ?thesis by simp
  qed
qed


lemma dirty_loop_Cons_Inr:
  assumes "dirty_loop dirty dec idx payload cb (e # es) = Inr (cb', es')"
  obtains cb1 es1 where
    "if dirty e > 0 then CopyData cb (idx e) (payload e) = Inr cb1 else cb1 = cb"
    "dirty_loop dirty dec idx payload cb1 es = Inr (cb', es1)"
    "es' = (if dirty e > 0 then dec e else e) # es1"
proof (cases "dirty e > 0")
  case True
  with assms obtain cb1 where c: "CopyData cb (idx e) (payload e) = Inr cb1"
    by (cases "CopyData cb (idx e) (payload e)") simp_all
  with True assms obtain es1 where "dirty_loop dirty dec idx payload cb1 es = Inr (cb', es1)"
    "es' = dec e # es1"
    by (cases "dirty_loop dirty dec idx payload cb1 es") auto
  with True c that show ?thesis by simp
next
  case False
  with assms obtain es1 where "dirty_loop dirty dec idx payload cb es = Inr (cb', es1)"
    "es' = e # es1"
    by (cases "dirty_loop dirty dec idx payload cb es") auto
  with False that show ?thesis by simp
qed


lemma dirty_loop_shape:
  "dirty_loop dirty dec idx payload cb es = Inr (cb', es') \<Longrightarrow>
   length cb' = length cb \<and> es' = map (\<lambda>e. if dirty e > 0 then dec e else e) es"
proof (induction es arbitrary: cb cb' es')
  case Nil
  then show ?case by simp
next
  case (Cons e es)
  from Cons.prems obtain cb1 es1 where
    c: "if dirty e > 0 then CopyData cb (idx e) (payload e) = Inr cb1 else cb1 = cb" and
    l: "dirty_loop dirty dec idx payload cb1 es = Inr (cb', es1)" and
    e: "es' = (if dirty e > 0 then dec e else e) # es1"
    by (rule dirty_loop_Cons_Inr)
  from c have "length cb1 = length cb"
    by (auto simp: CopyData_Inr split: if_splits)
  with Cons.IH[OF l] e show ?case by simp
qed

lemma dirty_loop_untouched:
  "dirty_loop dirty dec idx payload cb es = Inr (cb', es') \<Longrightarrow>
   (\<forall>e\<in>set es. dirty e > 0 \<longrightarrow> idx e \<noteq> int k) \<Longrightarrow> cb' ! k = cb ! k"
proof (induction es arbitrary: cb cb' es')
  case Nil
  then show ?case by simp
next
  case (Cons e es)
  from Cons.prems(1) obtain cb1 es1 where
    c: "if dirty e > 0 then CopyData cb (idx e) (payload e) = Inr cb1 else cb1 = cb" and
    l: "dirty_loop dirty dec idx payload cb1 es = Inr (cb', es1)"
    by (rule dirty_loop_Cons_Inr)
  have "cb1 ! k = cb ! k"
  proof (cases "dirty e > 0")
    case True
    with c have "0 \<le> idx e" "cb1 = cb[nat (idx e) := payload e]"
      by (simp_all add: CopyData_Inr)
    moreover from True Cons.prems(2) have "idx e \<noteq> int k" by simp
    ultimately show ?thesis by (simp add: nat_eq_iff)
  next
    case False
    with c show ?thesis by simp
  qed
  moreover from Cons.prems(2) have "\<forall>x\<in>set es. dirty x > 0 \<longrightarrow> idx x \<noteq> int k" by simp
  from Cons.IH[OF l this] have "cb' ! k = cb1 ! k" .
  ultimately show ?case by simp
qed

lemma dirty_loop_written:
  "dirty_loop dirty dec idx payload cb es = Inr (cb', es') \<Longrightarrow>
   p < length es \<Longrightarrow> dirty (es ! p) > 0 \<Longrightarrow>
   (\<forall>q<length es. q \<noteq> p \<longrightarrow> idx (es ! q) \<noteq> idx (es ! p)) \<Longrightarrow>
   cb' ! nat (idx (es ! p)) = payload (es ! p)"
proof (induction es arbitrary: cb cb' es' p)
  case Nil
  then show ?case by simp
next
  case (Cons e es)
  from Cons.prems(1) obtain cb1 es1 where
    c: "if dirty e > 0 then CopyData cb (idx e) (payload e) = Inr cb1 else cb1 = cb" and
    l: "dirty_loop dirty dec idx payload cb1 es = Inr (cb', es1)"
    by (rule dirty_loop_Cons_Inr)
  show ?case
  proof (cases p)
    case 0
    with c Cons.prems(3) have rng: "0 \<le> idx e" "idx e < int (length cb)"
      and cb1: "cb1 = cb[nat (idx e) := payload e]"
      by (simp_all add: CopyData_Inr)
    have "\<forall>x\<in>set es. dirty x > 0 \<longrightarrow> idx x \<noteq> int (nat (idx e))"
    proof
      fix x assume "x \<in> set es"
      then obtain q where q: "q < length es" "es ! q = x" by (auto simp: in_set_conv_nth)
      from Cons.prems(4)[rule_format, of "Suc q"] q 0 have "idx x \<noteq> idx e" by simp
      with rng show "dirty x > 0 \<longrightarrow> idx x \<noteq> int (nat (idx e))" by simp
    qed
    from dirty_loop_untouched[OF l this] cb1 rng 0 show ?thesis by simp
  next
    case (Suc p')
    have d: "\<forall>q<length es. q \<noteq> p' \<longrightarrow> idx (es ! q) \<noteq> idx (es ! p')"
    proof (intro allI impI)
      fix q assume "q < length es" "q \<noteq> p'"
      with Cons.prems(4)[rule_format, of "Suc q"] Suc show "idx (es ! q) \<noteq> idx (es ! p')" by simp
    qed
    from Cons.prems(2,3) Suc have "p' < length es" "dirty (es ! p') > 0" by simp_all
    from Cons.IH[OF l this d] Suc show ?thesis by simp
  qed
qed

lemma countdown_flush_Inr:
  assumes "countdown_flush dirty dec idx payload i bufs es = Inr (bufs', es')"
  obtains cb where "i < length bufs"
    "dirty_loop dirty dec idx payload (bufs ! i) es = Inr (cb, es')" "bufs' = bufs[i := cb]"
proof -
  from assms have i: "i < length bufs"
    by (simp add: countdown_flush_def split: if_splits)
  with assms obtain cb where "dirty_loop dirty dec idx payload (bufs ! i) es = Inr (cb, es')"
    "bufs' = bufs[i := cb]"
    by (cases "dirty_loop dirty dec idx payload (bufs ! i) es")
       (auto simp: countdown_flush_def)
  with i that show ?thesis by blast
qed

lemma countdown_flushes_Cons_Inr:
  assumes "countdown_flushes dirty dec idx payload (i # slots) bufs es = Inr (bufs', es')"
  obtains bufs1 es1 where
    "countdown_flush dirty dec idx payload i bufs es = Inr (bufs1, es1)"
    "countdown_flushes dirty dec idx payload slots bufs1 es1 = Inr (bufs', es')"
  using assms by (cases "countdown_flush dirty dec idx payload i bufs es") auto

text \<open>One flush, seen from entry \<open>p\<close>.\<close>

lemma countdown_flush_entry:
  assumes f: "countdown_flush dirty dec idx payload i bufs es = Inr (bufs', es')"
    and dec: "\<And>e. dirty (dec e) = dirty e - 1" "\<And>e. idx (dec e) = idx e"
      "\<And>e. payload (dec e) = payload e"
    and p: "p < length es" "0 \<le> idx (es ! p)"
    and d: "\<forall>q<length es. q \<noteq> p \<longrightarrow> idx (es ! q) \<noteq> idx (es ! p)"
  shows "i < length bufs" "length bufs' = length bufs" "length es' = length es"
    "\<forall>q<length es. idx (es' ! q) = idx (es ! q) \<and> payload (es' ! q) = payload (es ! q)"
    "dirty (es' ! p) = (if dirty (es ! p) > 0 then dirty (es ! p) - 1 else dirty (es ! p))"
    "\<forall>s. s \<noteq> i \<longrightarrow> bufs' ! s = bufs ! s"
    "bufs' ! i ! nat (idx (es ! p)) =
       (if dirty (es ! p) > 0 then payload (es ! p) else bufs ! i ! nat (idx (es ! p)))"
proof -
  from f obtain cb where i: "i < length bufs"
    and l: "dirty_loop dirty dec idx payload (bufs ! i) es = Inr (cb, es')"
    and b: "bufs' = bufs[i := cb]"
    by (rule countdown_flush_Inr)
  from dirty_loop_shape[OF l] have
    es': "es' = map (\<lambda>e. if dirty e > 0 then dec e else e) es" by simp
  show "i < length bufs" by fact
  show "length bufs' = length bufs" using b by simp
  show "length es' = length es" using es' by simp
  show "\<forall>q<length es. idx (es' ! q) = idx (es ! q) \<and> payload (es' ! q) = payload (es ! q)"
    using es' dec by simp
  show "dirty (es' ! p) = (if dirty (es ! p) > 0 then dirty (es ! p) - 1 else dirty (es ! p))"
    using es' dec p by simp
  show "\<forall>s. s \<noteq> i \<longrightarrow> bufs' ! s = bufs ! s" using b by simp
  show "bufs' ! i ! nat (idx (es ! p)) =
       (if dirty (es ! p) > 0 then payload (es ! p) else bufs ! i ! nat (idx (es ! p)))"
  proof (cases "dirty (es ! p) > 0")
    case True
    from dirty_loop_written[OF l p(1) True d] True b i show ?thesis by simp
  next
    case False
    have "\<forall>e\<in>set es. dirty e > 0 \<longrightarrow> idx e \<noteq> int (nat (idx (es ! p)))"
    proof
      fix x assume "x \<in> set es"
      then obtain q where q: "q < length es" "es ! q = x" by (auto simp: in_set_conv_nth)
      show "dirty x > 0 \<longrightarrow> idx x \<noteq> int (nat (idx (es ! p)))"
      proof
        assume "dirty x > 0"
        with False q have "q \<noteq> p" by auto
        with d q have "idx x \<noteq> idx (es ! p)" by auto
        with p show "idx x \<noteq> int (nat (idx (es ! p)))" by simp
      qed
    qed
    from dirty_loop_untouched[OF l this] False b i show ?thesis by simp
  qed
qed

lemma countdown_flushes_other_slot:
  "countdown_flushes dirty dec idx payload slots bufs es = Inr (bufs', es') \<Longrightarrow>
   s \<notin> set slots \<Longrightarrow> bufs' ! s = bufs ! s"
proof (induction slots arbitrary: bufs es)
  case Nil
  then show ?case by simp
next
  case (Cons i slots)
  from Cons.prems(1) obtain bufs1 es1 where
    f: "countdown_flush dirty dec idx payload i bufs es = Inr (bufs1, es1)" and
    r: "countdown_flushes dirty dec idx payload slots bufs1 es1 = Inr (bufs', es')"
    by (rule countdown_flushes_Cons_Inr)
  from f obtain cb where "bufs1 = bufs[i := cb]" by (rule countdown_flush_Inr)
  with Cons.prems(2) have "bufs1 ! s = bufs ! s" by simp
  with Cons.IH[OF r] Cons.prems(2) show ?case by simp
qed

lemma countdown_flushes_countdown:
  assumes dec: "\<And>e. dirty (dec e) = dirty e - 1" "\<And>e. idx (dec e) = idx e"
      "\<And>e. payload (dec e) = payload e"
  shows "countdown_flushes dirty dec idx payload slots bufs es = Inr (bufs', es') \<Longrightarrow>
    p < length es \<Longrightarrow> 0 \<le> idx (es ! p) \<Longrightarrow>
    (\<forall>q<length es. q \<noteq> p \<longrightarrow> idx (es ! q) \<noteq> idx (es ! p)) \<Longrightarrow>
    int (length slots) \<le> dirty (es ! p) \<Longrightarrow>
    dirty (es' ! p) = dirty (es ! p) - int (length slots) \<and>
    idx (es' ! p) = idx (es ! p) \<and> payload (es' ! p) = payload (es ! p) \<and>
    length es' = length es \<and> length bufs' = length bufs \<and>
    (\<forall>q<length es. q \<noteq> p \<longrightarrow> idx (es' ! q) \<noteq> idx (es' ! p)) \<and>
    (\<forall>s\<in>set slots. bufs' ! s ! nat (idx (es ! p)) = payload (es ! p))"
proof (induction slots arbitrary: bufs es)
  case Nil
  then show ?case by simp
next
  case (Cons i slots)
  from Cons.prems(1) obtain bufs1 es1 where
    f: "countdown_flush dirty dec idx payload i bufs es = Inr (bufs1, es1)" and
    r: "countdown_flushes dirty dec idx payload slots bufs1 es1 = Inr (bufs', es')"
    by (rule countdown_flushes_Cons_Inr)
  note e = countdown_flush_entry[OF f dec Cons.prems(2,3,4)]
  from Cons.prems(5) have pos: "dirty (es ! p) > 0" by simp
  have p1: "p < length es1" using e(3) Cons.prems(2) by simp
  have i1: "idx (es1 ! p) = idx (es ! p)" "payload (es1 ! p) = payload (es ! p)"
    using e(4) Cons.prems(2) by simp_all
  have d1: "dirty (es1 ! p) = dirty (es ! p) - 1" using e(5) pos by simp
  have dist1: "\<forall>q<length es1. q \<noteq> p \<longrightarrow> idx (es1 ! q) \<noteq> idx (es1 ! p)"
    using e(3,4) Cons.prems(2,4) by simp
  have le1: "int (length slots) \<le> dirty (es1 ! p)" using d1 Cons.prems(5) by simp
  have nn1: "0 \<le> idx (es1 ! p)" using i1 Cons.prems(3) by simp
  note IH = Cons.IH[OF r p1 nn1 dist1 le1]
  have ih: "dirty (es' ! p) = dirty (es1 ! p) - int (length slots)"
      "idx (es' ! p) = idx (es ! p)" "payload (es' ! p) = payload (es ! p)"
      "length es' = length es1" "length bufs' = length bufs1"
      "\<forall>s\<in>set slots. bufs' ! s ! nat (idx (es ! p)) = payload (es ! p)"
    using IH i1 by simp_all
  have ih6: "\<forall>q<length es1. q \<noteq> p \<longrightarrow> idx (es' ! q) \<noteq> idx (es' ! p)"
    using IH by blast
  have "bufs' ! i ! nat (idx (es ! p)) = payload (es ! p)"
  proof (cases "i \<in> set slots")
    case True
    with ih(6) show ?thesis by simp
  next
    case False
    from countdown_flushes_other_slot[OF r False] e(7) pos show ?thesis by simp
  qed
  with ih ih6 d1 e(2,3) show ?case by simp
qed

lemma countdown_flushes_settled:
  assumes dec: "\<And>e. dirty (dec e) = dirty e - 1" "\<And>e. idx (dec e) = idx e"
      "\<And>e. payload (dec e) = payload e"
  shows "countdown_flushes dirty dec idx payload slots bufs es = Inr (bufs', es') \<Longrightarrow>
    p < length es \<Longrightarrow> 0 \<le> idx (es ! p) \<Longrightarrow>
    (\<forall>q<length es. q \<noteq> p \<longrightarrow> idx (es ! q) \<noteq> idx (es ! p)) \<Longrightarrow>
    dirty (es ! p) = 0 \<Longrightarrow>
    dirty (es' ! p) = 0 \<and> (\<forall>s. bufs' ! s ! nat (idx (es ! p)) = bufs ! s ! nat (idx (es ! p)))"
proof (induction slots arbitrary: bufs es)
  case Nil
  then show ?case by simp
next
  case (Cons i slots)
  from Cons.prems(1) obtain bufs1 es1 where
    f: "countdown_flush dirty dec idx payload i bufs es = Inr (bufs1, es1)" and
    r: "countdown_flushes dirty dec idx payload slots bufs1 es1 = Inr (bufs', es')"
    by (rule countdown_flushes_Cons_Inr)
  note e = countdown_flush_entry[OF f dec Cons.prems(2,3,4)]
  have p1: "p < length es1" using e(3) Cons.prems(2) by simp
  have i1: "idx (es1 ! p) = idx (es ! p)"
    using e(4) Cons.prems(2) by simp
  have d1: "dirty (es1 ! p) = 0" using e(5) Cons.prems(5) by simp
  have dist1: "\<forall>q<length es1. q \<noteq> p \<longrightarrow> idx (es1 ! q) \<noteq> idx (es1 ! p)"
    using e(3,4) Cons.prems(2,4) by simp
  have nn1: "0 \<le> idx (es1 ! p)" using i1 Cons.prems(3) by simp
  note IH = Cons.IH[OF r p1 nn1 dist1 d1]
  have ih: "dirty (es' ! p) = 0"
      "\<forall>s. bufs' ! s ! nat (idx (es ! p)) = bufs1 ! s ! nat (idx (es ! p))"
    using IH i1 by simp_all
  have "bufs1 ! s ! nat (idx (es ! p)) = bufs ! s ! nat (idx (es ! p))" for s
    using e(6,7) Cons.prems(5) by (cases "s = i") simp_all
  with ih show ?case by simp
qed

lemma bind_e_Inr:
  assumes "bind_e m f = Inr y"
  obtains x where "m = Inr x" "f x = Inr y"
  using assms by (cases m) (auto simp: bind_e_def)

lemma UpdateObjectCBs_Inr:
  assumes "UpdateObjectCBs s = Inr s'"
  obtains i cb es where "mCurrFrameResource s = Some i" "i < length (mFrameResources s)"
    "ObjectCBs_loop (ObjectCB (mFrameResources s ! i)) (mAllRitems s) = Inr (cb, es)"
    "s' = log_event (FlushObjects i)
       (s\<lparr>mFrameResources := (mFrameResources s)[i := (mFrameResources s ! i)\<lparr>ObjectCB := cb\<rparr>],
          mAllRitems := es\<rparr>)"
proof -
  from assms obtain i where i: "mCurrFrameResource s = Some i"
    by (cases "mCurrFrameResource s") (simp_all add: UpdateObjectCBs_def)
  with assms have l: "i < length (mFrameResources s)"
    by (simp add: UpdateObjectCBs_def split: if_splits)
  with assms i obtain cb es where
    "ObjectCBs_loop (ObjectCB (mFrameResources s ! i)) (mAllRitems s) = Inr (cb, es)"
    "s' = log_event (FlushObjects i)
       (s\<lparr>mFrameResources := (mFrameResources s)[i := (mFrameResources s ! i)\<lparr>ObjectCB := cb\<rparr>],
          mAllRitems := es\<rparr>)"
    by (cases "ObjectCBs_loop (ObjectCB (mFrameResources s ! i)) (mAllRitems s)")
       (auto simp: UpdateObjectCBs_def)
  with i l that show ?thesis by blast
qed

lemma UpdateMaterialCBs_Inr:
  assumes "UpdateMaterialCBs s = Inr s'"
  obtains i cb es where "mCurrFrameResource s = Some i" "i < length (mFrameResources s)"
    "MaterialCBs_loop (MaterialCB (mFrameResources s ! i)) (mMaterials s) = Inr (cb, es)"
    "s' = log_event (FlushMaterials i)
       (s\<lparr>mFrameResources := (mFrameResources s)[i := (mFrameResources s ! i)\<lparr>MaterialCB := cb\<rparr>],
          mMaterials := es\<rparr>)"
proof -
  from assms obtain i where i: "mCurrFrameResource s = Some i"
    by (cases "mCurrFrameResource s") (simp_all add: UpdateMaterialCBs_def)
  with assms have l: "i < length (mFrameResources s)"
    by (simp add: UpdateMaterialCBs_def split: if_splits)
  with assms i obtain cb es where
    "MaterialCBs_loop (MaterialCB (mFrameResources s ! i)) (mMaterials s) = Inr (cb, es)"
    "s' = log_event (FlushMaterials i)
       (s\<lparr>mFrameResources := (mFrameResources s)[i := (mFrameResources s ! i)\<lparr>MaterialCB := cb\<rparr>],
          mMaterials := es\<rparr>)"
    by (cases "MaterialCBs_loop (MaterialCB (mFrameResources s ! i)) (mMaterials s)")
       (auto simp: UpdateMaterialCBs_def)
  with i l that show ?thesis by blast
qed

lemma map_field_update:
  "i < length frs \<Longrightarrow> (\<And>fr. g (upd fr) = v) \<Longrightarrow>
   map g (frs[i := upd (frs ! i)]) = (map g frs)[i := v]"
  by (simp add: map_update)

lemma map_field_other:
  "(\<And>fr. g (upd fr) = g fr) \<Longrightarrow> map g (frs[i := upd (frs ! i)]) = map g frs"
  by (cases "i < length frs") (simp_all add: map_update list_update_same_conv list_update_beyond)

lemma Flush_projections:
  assumes "Flush i s = Inr s'"
  shows "countdown_flush NumFramesDirty ritem_dec ritem_idx objConstants i
           (map ObjectCB (mFrameResources s)) (mAllRitems s) =
         Inr (map ObjectCB (mFrameResources s'), mAllRitems s')"
    and "countdown_flush mat_dirty mat_dec mat_idx mat_payload i
           (map MaterialCB (mFrameResources s)) (mMaterials s) =
         Inr (map MaterialCB (mFrameResources s'), mMaterials s')"
    and "length (mFrameResources s') = length (mFrameResources s)"
proof -
  from assms obtain s1 where u1: "UpdateObjectCBs (s\<lparr>mCurrFrameResource := Some i\<rparr>) = Inr s1"
    and u2: "UpdateMaterialCBs s1 = Inr s'"
    unfolding Flush_def by (rule bind_e_Inr)
  from u1 obtain j cb es where j: "mCurrFrameResource (s\<lparr>mCurrFrameResource := Some i\<rparr>) = Some j"
    and jl: "j < length (mFrameResources (s\<lparr>mCurrFrameResource := Some i\<rparr>))"
    and l1: "ObjectCBs_loop (ObjectCB (mFrameResources (s\<lparr>mCurrFrameResource := Some i\<rparr>) ! j))
               (mAllRitems (s\<lparr>mCurrFrameResource := Some i\<rparr>)) = Inr (cb, es)"
    and s1: "s1 = log_event (FlushObjects j)
       (s\<lparr>mCurrFrameResource := Some i\<rparr>
         \<lparr>mFrameResources := (mFrameResources (s\<lparr>mCurrFrameResource := Some i\<rparr>))
            [j := (mFrameResources (s\<lparr>mCurrFrameResource := Some i\<rparr>) ! j)\<lparr>ObjectCB := cb\<rparr>],
          mAllRitems := es\<rparr>)"
    by (rule UpdateObjectCBs_Inr)
  from j have ji: "j = i" by simp
  from jl ji have il: "i < length (mFrameResources s)" by simp
  from l1 ji have l1': "ObjectCBs_loop (ObjectCB (mFrameResources s ! i)) (mAllRitems s) = Inr (cb, es)"
    by simp
  have f1: "mFrameResources s1 = (mFrameResources s)[i := (mFrameResources s ! i)\<lparr>ObjectCB := cb\<rparr>]"
    and r1: "mAllRitems s1 = es" and m1: "mMaterials s1 = mMaterials s"
    and c1: "mCurrFrameResource s1 = Some i"
    using s1 ji by (simp_all add: log_event_def)
  from u2 obtain k cb2 es2 where k: "mCurrFrameResource s1 = Some k"
    and l2: "MaterialCBs_loop (MaterialCB (mFrameResources s1 ! k)) (mMaterials s1) = Inr (cb2, es2)"
    and s': "s' = log_event (FlushMaterials k)
       (s1\<lparr>mFrameResources := (mFrameResources s1)[k := (mFrameResources s1 ! k)\<lparr>MaterialCB := cb2\<rparr>],
          mMaterials := es2\<rparr>)"
    by (rule UpdateMaterialCBs_Inr)
  from k c1 have ki: "k = i" by simp
  have f2: "mFrameResources s' = (mFrameResources s1)[i := (mFrameResources s1 ! i)\<lparr>MaterialCB := cb2\<rparr>]"
    and r2: "mAllRitems s' = es" and m2: "mMaterials s' = es2"
    using s' ki r1 by (simp_all add: log_event_def)
  have o1: "map ObjectCB (mFrameResources s1) = (map ObjectCB (mFrameResources s))[i := cb]"
    unfolding f1 by (rule map_field_update[OF il]) simp
  have o2: "map ObjectCB (mFrameResources s') = map ObjectCB (mFrameResources s1)"
    unfolding f2 by (rule map_field_other) simp
  have q1: "map MaterialCB (mFrameResources s1) = map MaterialCB (mFrameResources s)"
    unfolding f1 by (rule map_field_other) simp
  have il1: "i < length (mFrameResources s1)" using f1 il by simp
  have q2: "map MaterialCB (mFrameResources s') = (map MaterialCB (mFrameResources s1))[i := cb2]"
    unfolding f2 by (rule map_field_update[OF il1]) simp
  have mi: "MaterialCB (mFrameResources s1 ! i) = MaterialCB (mFrameResources s ! i)"
    using f1 il by simp
  show "countdown_flush NumFramesDirty ritem_dec ritem_idx objConstants i
           (map ObjectCB (mFrameResources s)) (mAllRitems s) =
         Inr (map ObjectCB (mFrameResources s'), mAllRitems s')"
    using l1' il o1 o2 r2
    by (simp add: countdown_flush_def ObjectCBs_loop_dirty_loop[symmetric])
  show "countdown_flush mat_dirty mat_dec mat_idx mat_payload i
           (map MaterialCB (mFrameResources s)) (mMaterials s) =
         Inr (map MaterialCB (mFrameResources s'), mMaterials s')"
    using l2 ki il q1 q2 m1 m2 mi
    by (simp add: countdown_flush_def MaterialCBs_loop_dirty_loop[symmetric])
  show "length (mFrameResources s') = length (mFrameResources s)"
    using f1 f2 by simp
qed

lemma Flushes_projections:
  "Flushes slots s = Inr s' \<Longrightarrow>
   countdown_flushes NumFramesDirty ritem_dec ritem_idx objConstants slots
      (map ObjectCB (mFrameResources s)) (mAllRitems s) =
     Inr (map ObjectCB (mFrameResources s'), mAllRitems s') \<and>
   countdown_flushes mat_dirty mat_dec mat_idx mat_payload slots
      (map MaterialCB (mFrameResources s)) (mMaterials s) =
     Inr (map MaterialCB (mFrameResources s'), mMaterials s') \<and>
   length (mFrameResources s') = length (mFrameResources s)"
proof (induction slots arbitrary: s)
  case Nil
  then show ?case by simp
next
  case (Cons i slots)
  from Cons.prems obtain s1 where f: "Flush i s = Inr s1" and r: "Flushes slots s1 = Inr s'"
    unfolding Flushes.simps by (rule bind_e_Inr)
  from Flush_projections[OF f] Cons.IH[OF r] show ?case by simp
qed

lemma countdown_flush_ok:
  assumes "i < length bufs" "\<forall>e\<in>set es. \<forall>b\<in>set bufs. 0 \<le> idx e \<and> idx e < int (length b)"
  shows "\<exists>bufs' es'. countdown_flush dirty dec idx payload i bufs es = Inr (bufs', es')"
proof -
  from assms(2) nth_mem[OF assms(1)]
  have "\<forall>e\<in>set es. 0 \<le> idx e \<and> idx e < int (length (bufs ! i))" by blast
  from dirty_loop_ok[OF this] obtain cb es' where
    "dirty_loop dirty dec idx payload (bufs ! i) es = Inr (cb, es')" by blast
  with assms(1) show ?thesis by (simp add: countdown_flush_def)
qed

lemma countdown_flush_in_range:
  assumes f: "countdown_flush dirty dec idx payload i bufs es = Inr (bufs', es')"
    and dec: "\<And>e. idx (dec e) = idx e"
    and r: "\<forall>e\<in>set es. \<forall>b\<in>set bufs. 0 \<le> idx e \<and> idx e < int (length b)"
  shows "\<forall>e\<in>set es'. \<forall>b\<in>set bufs'. 0 \<le> idx e \<and> idx e < int (length b)"
proof (intro ballI)
  fix e' b' assume e': "e' \<in> set es'" and b': "b' \<in> set bufs'"
  from f obtain cb where i: "i < length bufs"
    and l: "dirty_loop dirty dec idx payload (bufs ! i) es = Inr (cb, es')"
    and b: "bufs' = bufs[i := cb]"
    by (rule countdown_flush_Inr)
  from dirty_loop_shape[OF l] have len: "length cb = length (bufs ! i)"
    and es': "es' = map (\<lambda>e. if dirty e > 0 then dec e else e) es" by simp_all
  from e' es' obtain e where e: "e \<in> set es" "idx e' = idx e"
    using dec by auto
  from b' b have "b' = cb \<or> b' \<in> set bufs"
    using set_update_subset_insert[of bufs i cb] by auto
  then obtain b0 where "b0 \<in> set bufs" "length b' = length b0"
    using len i by (metis nth_mem)
  with r e show "0 \<le> idx e' \<and> idx e' < int (length b')" by simp
qed

lemma cbs_in_range_projections:
  "cbs_in_range s \<longleftrightarrow>
     (\<forall>e\<in>set (mAllRitems s). \<forall>b\<in>set (map ObjectCB (mFrameResources s)).
        0 \<le> ritem_idx e \<and> ritem_idx e < int (length b)) \<and>
     (\<forall>m\<in>set (mMaterials s). \<forall>b\<in>set (map MaterialCB (mFrameResources s)).
        0 \<le> mat_idx m \<and> mat_idx m < int (length b))"
  by (simp add: cbs_in_range_def)

lemma Flush_ok:
  assumes i: "i < length (mFrameResources s)" and r: "cbs_in_range s"
  shows "\<exists>s'. Flush i s = Inr s'"
proof -
  let ?s0 = "s\<lparr>mCurrFrameResource := Some i\<rparr>"
  from r nth_mem[OF i] have "\<forall>e\<in>set (mAllRitems s).
      0 \<le> ritem_idx e \<and> ritem_idx e < int (length (ObjectCB (mFrameResources s ! i)))"
    by (simp add: cbs_in_range_def)
  from dirty_loop_ok[OF this] obtain cb es where
    l1: "ObjectCBs_loop (ObjectCB (mFrameResources s ! i)) (mAllRitems s) = Inr (cb, es)"
    unfolding ObjectCBs_loop_dirty_loop by blast
  define s1 where "s1 = log_event (FlushObjects i)
       (?s0\<lparr>mFrameResources := (mFrameResources s)[i := (mFrameResources s ! i)\<lparr>ObjectCB := cb\<rparr>],
          mAllRitems := es\<rparr>)"
  have u1: "UpdateObjectCBs ?s0 = Inr s1"
    using i l1 by (simp add: UpdateObjectCBs_def s1_def)
  have c1: "mCurrFrameResource s1 = Some i" "mMaterials s1 = mMaterials s"
    "length (mFrameResources s1) = length (mFrameResources s)"
    "MaterialCB (mFrameResources s1 ! i) = MaterialCB (mFrameResources s ! i)"
    using i by (simp_all add: s1_def log_event_def)
  from r nth_mem[OF i] have "\<forall>m\<in>set (mMaterials s).
      0 \<le> mat_idx m \<and> mat_idx m < int (length (MaterialCB (mFrameResources s ! i)))"
    unfolding cbs_in_range_def by blast
  from dirty_loop_ok[OF this] obtain cb2 es2 where
    l2: "MaterialCBs_loop (MaterialCB (mFrameResources s ! i)) (mMaterials s) = Inr (cb2, es2)"
    unfolding MaterialCBs_loop_dirty_loop by blast
  have "\<exists>s'. UpdateMaterialCBs s1 = Inr s'"
    using c1 i l2 by (simp add: UpdateMaterialCBs_def)
  with u1 show ?thesis by (auto simp: Flush_def bind_e_def)
qed

lemma Flush_in_range:
  assumes f: "Flush i s = Inr s'" and r: "cbs_in_range s"
  shows "cbs_in_range s'"
  unfolding cbs_in_range_projections
proof
  show "\<forall>e\<in>set (mAllRitems s'). \<forall>b\<in>set (map ObjectCB (mFrameResources s')).
          0 \<le> ritem_idx e \<and> ritem_idx e < int (length b)"
    by (rule countdown_flush_in_range[OF Flush_projections(1)[OF f]])
       (use r in \<open>simp_all add: cbs_in_range_def\<close>)
  show "\<forall>m\<in>set (mMaterials s'). \<forall>b\<in>set (map MaterialCB (mFrameResources s')).
          0 \<le> mat_idx m \<and> mat_idx m < int (length b)"
    by (rule countdown_flush_in_range[OF Flush_projections(2)[OF f]])
       (use r in \<open>simp_all add: cbs_in_range_def\<close>)
qed

lemma Flushes_ok:
  "\<forall>i\<in>set slots. i < length (mFrameResources s) \<Longrightarrow> cbs_in_range s \<Longrightarrow>
   \<exists>s'. Flushes slots s = Inr s'"
proof (induction slots arbitrary: s)
  case Nil
  show ?case by simp
next
  case (Cons i slots)
  from Cons.prems have "i < length (mFrameResources s)" by simp
  from Flush_ok[OF this Cons.prems(2)] obtain s1 where f: "Flush i s = Inr s1" by blast
  from Flush_projections(3)[OF f] Cons.prems(1)
  have "\<forall>i\<in>set slots. i < length (mFrameResources s1)" by simp
  from Cons.IH[OF this Flush_in_range[OF f Cons.prems(2)]] f show ?case
    by (simp add: bind_e_def)
qed

lemma all_slots_visited:
  assumes "length slots = n" "distinct slots" "\<forall>i\<in>set slots. i < n"
  shows "set slots = {..<n}"
proof -
  from assms(3) have "set slots \<subseteq> {..<n}" by auto
  moreover from assms(1,2) have "card (set slots) = card {..<n}"
    by (simp add: distinct_card)
  ultimately show ?thesis by (simp add: card_subset_eq)
qed

lemma countdown_converges:
  assumes dec: "\<And>e. dirty (dec e) = dirty e - 1" "\<And>e. idx (dec e) = idx e"
      "\<And>e. payload (dec e) = payload e"
    and run: "countdown_flushes dirty dec idx payload slots bufs es = Inr (bufs', es')"
    and p: "p < length es" "0 \<le> idx (es ! p)"
    and dist: "distinct (map idx es)"
    and dirty: "dirty (es ! p) = int (length slots)"
    and slots: "set slots = {..<length bufs}"
  shows "dirty (es' ! p) = 0"
    and "\<forall>k<length bufs. bufs' ! k ! nat (idx (es ! p)) = payload (es ! p)"
    and "\<And>more bufs'' es''.
           countdown_flushes dirty dec idx payload more bufs' es' = Inr (bufs'', es'') \<Longrightarrow>
           dirty (es'' ! p) = 0 \<and>
           (\<forall>k. bufs'' ! k ! nat (idx (es ! p)) = bufs' ! k ! nat (idx (es ! p)))"
proof -
  have d: "\<forall>q<length es. q \<noteq> p \<longrightarrow> idx (es ! q) \<noteq> idx (es ! p)"
  proof (intro allI impI)
    fix q assume "q < length es" "q \<noteq> p"
    with dist p(1) show "idx (es ! q) \<noteq> idx (es ! p)"
      using nth_eq_iff_index_eq[of "map idx es" q p] by simp
  qed
  have le: "int (length slots) \<le> dirty (es ! p)" using dirty by simp
  note c = countdown_flushes_countdown[of dirty dec idx payload, OF dec run p d le]
  from c dirty show "dirty (es' ! p) = 0" by simp
  from c slots show "\<forall>k<length bufs. bufs' ! k ! nat (idx (es ! p)) = payload (es ! p)"
    by simp
  fix more bufs'' es''
  assume m: "countdown_flushes dirty dec idx payload more bufs' es' = Inr (bufs'', es'')"
  have p': "p < length es'" "0 \<le> idx (es' ! p)" using c p by simp_all
  have "length es' = length es" using c by blast
  moreover have "\<forall>q<length es. q \<noteq> p \<longrightarrow> idx (es' ! q) \<noteq> idx (es' ! p)" using c by blast
  ultimately have d': "\<forall>q<length es'. q \<noteq> p \<longrightarrow> idx (es' ! q) \<noteq> idx (es' ! p)" by simp
  have ie: "idx (es' ! p) = idx (es ! p)" using c by blast
  have z: "dirty (es' ! p) = 0" using c dirty by simp
  from countdown_flushes_settled[of dirty dec idx payload, OF dec m p' d' z] ie
  show "dirty (es'' ! p) = 0 \<and>
           (\<forall>k. bufs'' ! k ! nat (idx (es ! p)) = bufs' ! k ! nat (idx (es ! p)))"
    by simp
qed

text \<open>
  Claim C1. Take a scene whose constant-buffer indices are in range and belong to one
  entry each. A render item or a material whose counter is \<open>gNumFrameResources\<close> = 3
  (it was edited once) is, after three flushes that visit the three slots once each, at
  counter 0, and each of the three slots holds the entry's value: for a render item the
  transposes of its \<open>World\<close> and \<open>TexTransform\<close>, for a material its \<open>DiffuseAlbedo\<close>,
  \<open>FresnelR0\<close> and \<open>Roughness\<close> and the transpose of its \<open>MatTransform\<close>. Whatever is
  flushed afterwards, the counter stays 0 and the entry's three copies are left as they
  are.
\<close>

theorem dirty_propagation_converges:
  fixes s :: "('a, 'p) App"
  assumes frames: "length (mFrameResources s) = nat gNumFrameResources"
    and slots: "length slots = nat gNumFrameResources" "distinct slots"
      "\<forall>i\<in>set slots. i < nat gNumFrameResources"
    and range: "cbs_in_range s"
    and own: "distinct (map ObjCBIndex (mAllRitems s))"
      "distinct (map (\<lambda>m. MatCBIndex (snd m)) (mMaterials s))"
  shows "\<exists>s'. Flushes slots s = Inr s' \<and>
    (\<forall>p<length (mAllRitems s).
       NumFramesDirty (mAllRitems s ! p) = gNumFrameResources \<longrightarrow>
       NumFramesDirty (mAllRitems s' ! p) = 0 \<and>
       (\<forall>k<nat gNumFrameResources.
          ObjectCB (mFrameResources s' ! k) ! ObjCBIndex (mAllRitems s ! p) =
          \<lparr>ocWorld = XMMatrixTranspose (World (mAllRitems s ! p)),
             ocTexTransform = XMMatrixTranspose (TexTransform (mAllRitems s ! p))\<rparr>) \<and>
       (\<forall>more s''. Flushes more s' = Inr s'' \<longrightarrow>
          NumFramesDirty (mAllRitems s'' ! p) = 0 \<and>
          (\<forall>k<nat gNumFrameResources.
             ObjectCB (mFrameResources s'' ! k) ! ObjCBIndex (mAllRitems s ! p) =
             ObjectCB (mFrameResources s' ! k) ! ObjCBIndex (mAllRitems s ! p)))) \<and>
    (\<forall>p<length (mMaterials s).
       MatNumFramesDirty (snd (mMaterials s ! p)) = gNumFrameResources \<longrightarrow>
       MatNumFramesDirty (snd (mMaterials s' ! p)) = 0 \<and>
       (\<forall>k<nat gNumFrameResources.
          MaterialCB (mFrameResources s' ! k) ! nat (MatCBIndex (snd (mMaterials s ! p))) =
          \<lparr>mcDiffuseAlbedo = DiffuseAlbedo (snd (mMaterials s ! p)),
             mcFresnelR0 = FresnelR0 (snd (mMaterials s ! p)),
             mcRoughness = Roughness (snd (mMaterials s ! p)),
             mcMatTransform = XMMatrixTranspose (MatTransform (snd (mMaterials s ! p)))\<rparr>) \<and>
       (\<forall>more s''. Flushes more s' = Inr s'' \<longrightarrow>
          MatNumFramesDirty (snd (mMaterials s'' ! p)) = 0 \<and>
          (\<forall>k<nat gNumFrameResources.
             MaterialCB (mFrameResources s'' ! k) ! nat (MatCBIndex (snd (mMaterials s ! p))) =
             MaterialCB (mFrameResources s' ! k) ! nat (MatCBIndex (snd (mMaterials s ! p))))))"
proof -
  let ?n = "nat gNumFrameResources"
  from slots(3) frames have "\<forall>i\<in>set slots. i < length (mFrameResources s)" by simp
  from Flushes_ok[OF this range] obtain s' where run: "Flushes slots s = Inr s'" by blast
  note pr = Flushes_projections[OF run]
  have len': "length (mFrameResources s') = ?n" using pr frames by simp
  have vis: "set slots = {..<?n}" by (rule all_slots_visited[OF slots])
  have obj: "NumFramesDirty (mAllRitems s' ! p) = 0 \<and>
       (\<forall>k<?n. ObjectCB (mFrameResources s' ! k) ! ObjCBIndex (mAllRitems s ! p) =
          \<lparr>ocWorld = XMMatrixTranspose (World (mAllRitems s ! p)),
             ocTexTransform = XMMatrixTranspose (TexTransform (mAllRitems s ! p))\<rparr>) \<and>
       (\<forall>more s''. Flushes more s' = Inr s'' \<longrightarrow>
          NumFramesDirty (mAllRitems s'' ! p) = 0 \<and>
          (\<forall>k<?n. ObjectCB (mFrameResources s'' ! k) ! ObjCBIndex (mAllRitems s ! p) =
             ObjectCB (mFrameResources s' ! k) ! ObjCBIndex (mAllRitems s ! p)))"
    if p: "p < length (mAllRitems s)"
      and d: "NumFramesDirty (mAllRitems s ! p) = gNumFrameResources" for p
  proof -
    have run1: "countdown_flushes NumFramesDirty ritem_dec ritem_idx objConstants slots
        (map ObjectCB (mFrameResources s)) (mAllRitems s) =
        Inr (map ObjectCB (mFrameResources s'), mAllRitems s')"
      using pr by simp
    have dist: "distinct (map ritem_idx (mAllRitems s))"
      using own(1) by (simp add: distinct_map inj_on_def)
    have dl: "NumFramesDirty (mAllRitems s ! p) = int (length slots)"
      using d slots(1) by (simp add: gNumFrameResources_def)
    have vis1: "set slots = {..<length (map ObjectCB (mFrameResources s))}"
      using vis frames by simp
    note c = countdown_converges[of NumFramesDirty ritem_dec ritem_idx objConstants,
        OF _ _ _ run1 p _ dist dl vis1]
    have c1: "NumFramesDirty (mAllRitems s' ! p) = 0"
      by (rule c(1)) (simp_all add: objConstants_def)
    have c2: "\<forall>k<length (map ObjectCB (mFrameResources s)).
        map ObjectCB (mFrameResources s') ! k ! nat (ritem_idx (mAllRitems s ! p)) =
        objConstants (mAllRitems s ! p)"
      by (rule c(2)) (simp_all add: objConstants_def)
    have c3: "NumFramesDirty (mAllRitems s'' ! p) = 0 \<and>
          (\<forall>k<?n. ObjectCB (mFrameResources s'' ! k) ! ObjCBIndex (mAllRitems s ! p) =
             ObjectCB (mFrameResources s' ! k) ! ObjCBIndex (mAllRitems s ! p))"
      if m: "Flushes more s' = Inr s''" for more s''
    proof -
      note pm = Flushes_projections[OF m]
      have lm: "length (mFrameResources s'') = ?n" using pm len' by simp
      have h: "NumFramesDirty (mAllRitems s'' ! p) = 0 \<and>
        (\<forall>k. map ObjectCB (mFrameResources s'') ! k ! nat (ritem_idx (mAllRitems s ! p)) =
             map ObjectCB (mFrameResources s') ! k ! nat (ritem_idx (mAllRitems s ! p)))"
        by (rule c(3)[of more]) (use pm in \<open>simp_all add: objConstants_def\<close>)
      have "ObjectCB (mFrameResources s'' ! k) ! ObjCBIndex (mAllRitems s ! p) =
             ObjectCB (mFrameResources s' ! k) ! ObjCBIndex (mAllRitems s ! p)" if "k < ?n" for k
        using that h[THEN conjunct2, rule_format, of k] lm len' by simp
      with h show ?thesis by simp
    qed
    from c1 c2 c3 frames len' show ?thesis by (simp add: objConstants_def matConstants_def)
  qed
  have mat: "MatNumFramesDirty (snd (mMaterials s' ! p)) = 0 \<and>
       (\<forall>k<?n. MaterialCB (mFrameResources s' ! k) ! nat (MatCBIndex (snd (mMaterials s ! p))) =
          \<lparr>mcDiffuseAlbedo = DiffuseAlbedo (snd (mMaterials s ! p)),
             mcFresnelR0 = FresnelR0 (snd (mMaterials s ! p)),
             mcRoughness = Roughness (snd (mMaterials s ! p)),
             mcMatTransform = XMMatrixTranspose (MatTransform (snd (mMaterials s ! p)))\<rparr>) \<and>
       (\<forall>more s''. Flushes more s' = Inr s'' \<longrightarrow>
          MatNumFramesDirty (snd (mMaterials s'' ! p)) = 0 \<and>
          (\<forall>k<?n. MaterialCB (mFrameResources s'' ! k) ! nat (MatCBIndex (snd (mMaterials s ! p))) =
             MaterialCB (mFrameResources s' ! k) ! nat (MatCBIndex (snd (mMaterials s ! p)))))"
    if p: "p < length (mMaterials s)"
      and d: "MatNumFramesDirty (snd (mMaterials s ! p)) = gNumFrameResources" for p
  proof -
    have run1: "countdown_flushes mat_dirty mat_dec mat_idx mat_payload slots
        (map MaterialCB (mFrameResources s)) (mMaterials s) =
        Inr (map MaterialCB (mFrameResources s'), mMaterials s')"
      using pr by simp
    have nn: "0 \<le> mat_idx (mMaterials s ! p)"
    proof -
      have "mFrameResources s \<noteq> []" using frames by (auto simp: gNumFrameResources_def)
      then obtain fr where "fr \<in> set (mFrameResources s)" by (cases "mFrameResources s") auto
      with range nth_mem[OF p] show ?thesis unfolding cbs_in_range_def by blast
    qed
    have dl: "mat_dirty (mMaterials s ! p) = int (length slots)"
      using d slots(1) by (simp add: gNumFrameResources_def)
    have vis1: "set slots = {..<length (map MaterialCB (mFrameResources s))}"
      using vis frames by simp
    note c = countdown_converges[of mat_dirty mat_dec mat_idx mat_payload,
        OF _ _ _ run1 p nn own(2) dl vis1]
    have c1: "mat_dirty (mMaterials s' ! p) = 0"
      by (rule c(1)) (simp_all add: matConstants_def)
    have c2: "\<forall>k<length (map MaterialCB (mFrameResources s)).
        map MaterialCB (mFrameResources s') ! k ! nat (mat_idx (mMaterials s ! p)) =
        mat_payload (mMaterials s ! p)"
      by (rule c(2)) (simp_all add: matConstants_def)
    have c3: "MatNumFramesDirty (snd (mMaterials s'' ! p)) = 0 \<and>
          (\<forall>k<?n. MaterialCB (mFrameResources s'' ! k) ! nat (MatCBIndex (snd (mMaterials s ! p))) =
             MaterialCB (mFrameResources s' ! k) ! nat (MatCBIndex (snd (mMaterials s ! p))))"
      if m: "Flushes more s' = Inr s''" for more s''
    proof -
      note pm = Flushes_projections[OF m]
      have lm: "length (mFrameResources s'') = ?n" using pm len' by simp
      have h: "mat_dirty (mMaterials s'' ! p) = 0 \<and>
        (\<forall>k. map MaterialCB (mFrameResources s'') ! k ! nat (mat_idx (mMaterials s ! p)) =
             map MaterialCB (mFrameResources s') ! k ! nat (mat_idx (mMaterials s ! p)))"
        by (rule c(3)[of more]) (use pm in \<open>simp_all add: matConstants_def\<close>)
      have "MaterialCB (mFrameResources s'' ! k) ! nat (MatCBIndex (snd (mMaterials s ! p))) =
             MaterialCB (mFrameResources s' ! k) ! nat (MatCBIndex (snd (mMaterials s ! p)))"
        if "k < ?n" for k
        using that h[THEN conjunct2, rule_format, of k] lm len' by simp
      with h show ?thesis by simp
    qed
    from c1 c2 c3 frames len' show ?thesis by (simp add: objConstants_def matConstants_def)
  qed
  from run obj mat show ?thesis by blast
qed

theorem dirty_propagation_converges_witness:
  "\<exists>s'. Flushes [1, 2, 0] example_app = Inr s' \<and>
     NumFramesDirty (mAllRitems s' ! 1) = 0 \<and>
     (\<forall>k<3. ObjectCB (mFrameResources s' ! k) ! 1 =
        \<lparr>ocWorld = ((2, 0, 0, 5), (0, 2, 0, 1), (0, 0, 2, - 7), (0, 0, 0, 1)),
         ocTexTransform = ((1, 0, 0, 0), (0, 1, 0, 0), (0, 0, 1, 0), (0, 0, 0, 1))\<rparr>) \<and>
     MatNumFramesDirty (snd (mMaterials s' ! 1)) = 0 \<and>
     (\<forall>k<3. MaterialCB (mFrameResources s' ! k) ! 1 =
        \<lparr>mcDiffuseAlbedo = (1, 1, 1, 1 / 2), mcFresnelR0 = (1 / 10, 1 / 10, 1 / 10),
         mcRoughness = 0,
         mcMatTransform = ((1, 0, 0, 0), (0, 1, 0, 0), (0, 0, 1, 0), (0, 0, 0, 1))\<rparr>)"
proof -
  have frames: "length (mFrameResources example_app) = nat gNumFrameResources"
    by (simp add: example_app_def gNumFrameResources_def)
  have slots: "length [1, 2, 0::nat] = nat gNumFrameResources" "distinct [1, 2, 0::nat]"
    "\<forall>i\<in>set [1, 2, 0::nat]. i < nat gNumFrameResources"
    by (simp_all add: gNumFrameResources_def)
  have range: "cbs_in_range example_app"
    by (simp add: cbs_in_range_def example_app_def example_ritems_def example_materials_def
        example_frame_def)
  have own: "distinct (map ObjCBIndex (mAllRitems example_app))"
    "distinct (map (\<lambda>m. MatCBIndex (snd m)) (mMaterials example_app))"
    by (simp_all add: example_app_def example_ritems_def example_materials_def)
  from dirty_propagation_converges[OF frames slots range own]
  obtain s' where run: "Flushes [1, 2, 0] example_app = Inr s'"
    and obj: "\<forall>p<length (mAllRitems example_app).
       NumFramesDirty (mAllRitems example_app ! p) = gNumFrameResources \<longrightarrow>
       NumFramesDirty (mAllRitems s' ! p) = 0 \<and>
       (\<forall>k<nat gNumFrameResources.
          ObjectCB (mFrameResources s' ! k) ! ObjCBIndex (mAllRitems example_app ! p) =
          \<lparr>ocWorld = XMMatrixTranspose (World (mAllRitems example_app ! p)),
           ocTexTransform = XMMatrixTranspose (TexTransform (mAllRitems example_app ! p))\<rparr>)"
    and mat: "\<forall>p<length (mMaterials example_app).
       MatNumFramesDirty (snd (mMaterials example_app ! p)) = gNumFrameResources \<longrightarrow>
       MatNumFramesDirty (snd (mMaterials s' ! p)) = 0 \<and>
       (\<forall>k<nat gNumFrameResources.
          MaterialCB (mFrameResources s' ! k) ! nat (MatCBIndex (snd (mMaterials example_app ! p))) =
          \<lparr>mcDiffuseAlbedo = DiffuseAlbedo (snd (mMaterials example_app ! p)),
           mcFresnelR0 = FresnelR0 (snd (mMaterials example_app ! p)),
           mcRoughness = Roughness (snd (mMaterials example_app ! p)),
           mcMatTransform = XMMatrixTranspose (MatTransform (snd (mMaterials example_app ! p)))\<rparr>)"
    by blast
  from obj[rule_format, of 1] have
    "NumFramesDirty (mAllRitems s' ! 1) = 0 \<and>
     (\<forall>k<3. ObjectCB (mFrameResources s' ! k) ! 1 =
        \<lparr>ocWorld = ((2, 0, 0, 5), (0, 2, 0, 1), (0, 0, 2, - 7), (0, 0, 0, 1)),
         ocTexTransform = ((1, 0, 0, 0), (0, 1, 0, 0), (0, 0, 1, 0), (0, 0, 0, 1))\<rparr>)"
    by (simp add: example_app_def example_ritems_def gNumFrameResources_def Identity4x4_def)
  moreover from mat[rule_format, of 1] have
    "MatNumFramesDirty (snd (mMaterials s' ! 1)) = 0 \<and>
     (\<forall>k<3. MaterialCB (mFrameResources s' ! k) ! 1 =
        \<lparr>mcDiffuseAlbedo = (1, 1, 1, 1 / 2), mcFresnelR0 = (1 / 10, 1 / 10, 1 / 10),
         mcRoughness = 0,
         mcMatTransform = ((1, 0, 0, 0), (0, 1, 0, 0), (0, 0, 1, 0), (0, 0, 0, 1))\<rparr>)"
    by (simp add: example_app_def example_materials_def gNumFrameResources_def Identity4x4_def)
  ultimately show ?thesis using run by blast
qed

section \<open>An edit during propagation\<close>










section \<open>The frame loop\<close>

lemma AnimateMaterials_effect:
  assumes "AnimateMaterials DeltaTime s = Inr s'"
  shows "ctl s' = ctl s" "trace s' = trace s @ [MarkDirty ''water'']"
    "mFrameResources s' = mFrameResources s"
  using assms
  by (auto simp: AnimateMaterials_def Let_def log_event_def ctl_def
      split: option.splits prod.splits)

lemma UpdateObjectCBs_effect:
  assumes "UpdateObjectCBs s = Inr s'"
  obtains i where "mCurrFrameResource s = Some i" "i < length (mFrameResources s)"
    "ctl s' = ctl s" "trace s' = trace s @ [FlushObjects i]"
    "\<forall>k. k \<noteq> i \<longrightarrow> mFrameResources s' ! k = mFrameResources s ! k"
proof -
  from assms obtain i cb es where i: "mCurrFrameResource s = Some i"
    "i < length (mFrameResources s)"
    and s': "s' = log_event (FlushObjects i)
       (s\<lparr>mFrameResources := (mFrameResources s)[i := (mFrameResources s ! i)\<lparr>ObjectCB := cb\<rparr>],
          mAllRitems := es\<rparr>)"
    by (rule UpdateObjectCBs_Inr)
  have "map Fence (mFrameResources s') = map Fence (mFrameResources s)"
    unfolding s' log_event_def by (simp add: map_field_other)
  with s' have "ctl s' = ctl s" by (simp add: ctl_def log_event_def)
  moreover have "trace s' = trace s @ [FlushObjects i]" using s' by (simp add: log_event_def)
  moreover have "\<forall>k. k \<noteq> i \<longrightarrow> mFrameResources s' ! k = mFrameResources s ! k"
    using s' by (simp add: log_event_def)
  ultimately show ?thesis using i that by blast
qed

lemma UpdateMaterialCBs_effect:
  assumes "UpdateMaterialCBs s = Inr s'"
  obtains i where "mCurrFrameResource s = Some i" "i < length (mFrameResources s)"
    "ctl s' = ctl s" "trace s' = trace s @ [FlushMaterials i]"
    "\<forall>k. k \<noteq> i \<longrightarrow> mFrameResources s' ! k = mFrameResources s ! k"
proof -
  from assms obtain i cb es where i: "mCurrFrameResource s = Some i"
    "i < length (mFrameResources s)"
    and s': "s' = log_event (FlushMaterials i)
       (s\<lparr>mFrameResources := (mFrameResources s)[i := (mFrameResources s ! i)\<lparr>MaterialCB := cb\<rparr>],
          mMaterials := es\<rparr>)"
    by (rule UpdateMaterialCBs_Inr)
  have "map Fence (mFrameResources s') = map Fence (mFrameResources s)"
    unfolding s' log_event_def by (simp add: map_field_other)
  with s' have "ctl s' = ctl s" by (simp add: ctl_def log_event_def)
  moreover have "trace s' = trace s @ [FlushMaterials i]" using s' by (simp add: log_event_def)
  moreover have "\<forall>k. k \<noteq> i \<longrightarrow> mFrameResources s' ! k = mFrameResources s ! k"
    using s' by (simp add: log_event_def)
  ultimately show ?thesis using i that by blast
qed

lemma UpdateMainPassCB_effect:
  assumes "UpdateMainPassCB pass s = Inr s'"
  obtains i where "mCurrFrameResource s = Some i" "i < length (mFrameResources s)"
    "ctl s' = ctl s" "trace s' = trace s @ [FlushPass i]"
    "\<forall>k. k \<noteq> i \<longrightarrow> mFrameResources s' ! k = mFrameResources s ! k"
proof -
  from assms obtain i where i: "mCurrFrameResource s = Some i"
    by (cases "mCurrFrameResource s") (simp_all add: UpdateMainPassCB_def)
  with assms have l: "i < length (mFrameResources s)"
    by (simp add: UpdateMainPassCB_def split: if_splits)
  with assms i obtain cb where
    s': "s' = log_event (FlushPass i)
       (s\<lparr>mFrameResources := (mFrameResources s)[i := (mFrameResources s ! i)\<lparr>PassCB := cb\<rparr>],
          mMainPassCB := pass\<rparr>)"
    by (cases "CopyData (PassCB (mFrameResources s ! i)) 0 pass")
       (auto simp: UpdateMainPassCB_def)
  have "map Fence (mFrameResources s') = map Fence (mFrameResources s)"
    unfolding s' log_event_def by (simp add: map_field_other)
  with s' have "ctl s' = ctl s" by (simp add: ctl_def log_event_def)
  moreover have "trace s' = trace s @ [FlushPass i]" using s' by (simp add: log_event_def)
  moreover have "\<forall>k. k \<noteq> i \<longrightarrow> mFrameResources s' ! k = mFrameResources s ! k"
    using s' by (simp add: log_event_def)
  ultimately show ?thesis using i l that by blast
qed

lemma UpdateWaves_effect:
  assumes "UpdateWaves Waves_Update DeltaTime s = Inr s'"
  obtains i where "mCurrFrameResource s = Some i" "i < length (mFrameResources s)"
    "ctl s' = ctl s" "trace s' = trace s @ [SimStep, CopyVertices i]"
    "\<forall>k. k \<noteq> i \<longrightarrow> mFrameResources s' ! k = mFrameResources s ! k"
proof -
  let ?s1 = "log_event SimStep (s\<lparr>mWaves := Waves_Update (mWaves s) DeltaTime\<rparr>)"
  have c1: "mCurrFrameResource ?s1 = mCurrFrameResource s"
    "mFrameResources ?s1 = mFrameResources s" "trace ?s1 = trace s @ [SimStep]"
    "ctl ?s1 = ctl s"
    by (simp_all add: log_event_def ctl_def)
  from assms obtain i where i: "mCurrFrameResource s = Some i"
    by (cases "mCurrFrameResource s") (simp_all add: UpdateWaves_def Let_def log_event_def)
  with assms have l: "i < length (mFrameResources s)"
    by (simp add: UpdateWaves_def Let_def log_event_def split: if_splits)
  with assms i obtain vb where
    s': "s' = log_event (CopyVertices i)
       (?s1\<lparr>mFrameResources := (mFrameResources ?s1)[i := (mFrameResources ?s1 ! i)\<lparr>WavesVB := vb\<rparr>],
          mWavesVertexBufferGPU := Some i\<rparr>)"
    by (cases "WavesVB_loop (mWaves ?s1) 0 (WavesVB (mFrameResources ?s1 ! i))")
       (auto simp: UpdateWaves_def Let_def c1)
  have "map Fence (mFrameResources s') = map Fence (mFrameResources s)"
    unfolding s' log_event_def by (simp add: map_field_other)
  with s' have "ctl s' = ctl s" by (simp add: ctl_def log_event_def)
  moreover have "trace s' = trace s @ [SimStep, CopyVertices i]"
    using s' by (simp add: log_event_def)
  moreover have "\<forall>k. k \<noteq> i \<longrightarrow> mFrameResources s' ! k = mFrameResources s ! k"
    using s' by (simp add: log_event_def)
  ultimately show ?thesis using i l that by blast
qed

lemma Update_calls_effect:
  assumes u: "Update_calls Waves_Update pass DeltaTime s = Inr s'"
    and i: "mCurrFrameResource s = Some i"
  shows "ctl s' = ctl s"
    and "trace s' = trace s @ [MarkDirty ''water'', FlushObjects i, FlushMaterials i,
           FlushPass i, SimStep, CopyVertices i]"
    and "\<forall>k. k \<noteq> i \<longrightarrow> mFrameResources s' ! k = mFrameResources s ! k"
proof -
  from u obtain s1 where a1: "AnimateMaterials DeltaTime s = Inr s1"
    and u1: "bind_e (UpdateObjectCBs s1) (\<lambda>s.
     bind_e (UpdateMaterialCBs s) (\<lambda>s.
     bind_e (UpdateMainPassCB pass s) (\<lambda>s.
     UpdateWaves Waves_Update DeltaTime s))) = Inr s'"
    unfolding Update_calls_def by (rule bind_e_Inr)
  from u1 obtain s2 where a2: "UpdateObjectCBs s1 = Inr s2"
    and u2: "bind_e (UpdateMaterialCBs s2) (\<lambda>s.
     bind_e (UpdateMainPassCB pass s) (\<lambda>s.
     UpdateWaves Waves_Update DeltaTime s)) = Inr s'"
    by (rule bind_e_Inr)
  from u2 obtain s3 where a3: "UpdateMaterialCBs s2 = Inr s3"
    and u3: "bind_e (UpdateMainPassCB pass s3) (\<lambda>s.
     UpdateWaves Waves_Update DeltaTime s) = Inr s'"
    by (rule bind_e_Inr)
  from u3 obtain s4 where a4: "UpdateMainPassCB pass s3 = Inr s4"
    and a5: "UpdateWaves Waves_Update DeltaTime s4 = Inr s'"
    by (rule bind_e_Inr)
  note e1 = AnimateMaterials_effect[OF a1]
  have c1: "mCurrFrameResource s1 = Some i" using e1(1) i by (simp add: ctl_def)
  from a2 obtain i2 where e2: "mCurrFrameResource s1 = Some i2" "ctl s2 = ctl s1"
    "trace s2 = trace s1 @ [FlushObjects i2]"
    "\<forall>k. k \<noteq> i2 \<longrightarrow> mFrameResources s2 ! k = mFrameResources s1 ! k"
    by (rule UpdateObjectCBs_effect)
  have i2: "i2 = i" using e2(1) c1 by simp
  have c2: "mCurrFrameResource s2 = Some i" using e2(2) c1 by (simp add: ctl_def)
  from a3 obtain i3 where e3: "mCurrFrameResource s2 = Some i3" "ctl s3 = ctl s2"
    "trace s3 = trace s2 @ [FlushMaterials i3]"
    "\<forall>k. k \<noteq> i3 \<longrightarrow> mFrameResources s3 ! k = mFrameResources s2 ! k"
    by (rule UpdateMaterialCBs_effect)
  have i3: "i3 = i" using e3(1) c2 by simp
  have c3: "mCurrFrameResource s3 = Some i" using e3(2) c2 by (simp add: ctl_def)
  from a4 obtain i4 where e4: "mCurrFrameResource s3 = Some i4" "ctl s4 = ctl s3"
    "trace s4 = trace s3 @ [FlushPass i4]"
    "\<forall>k. k \<noteq> i4 \<longrightarrow> mFrameResources s4 ! k = mFrameResources s3 ! k"
    by (rule UpdateMainPassCB_effect)
  have i4: "i4 = i" using e4(1) c3 by simp
  have c4: "mCurrFrameResource s4 = Some i" using e4(2) c3 by (simp add: ctl_def)
  from a5 obtain i5 where e5: "mCurrFrameResource s4 = Some i5" "ctl s' = ctl s4"
    "trace s' = trace s4 @ [SimStep, CopyVertices i5]"
    "\<forall>k. k \<noteq> i5 \<longrightarrow> mFrameResources s' ! k = mFrameResources s4 ! k"
    by (rule UpdateWaves_effect)
  have i5: "i5 = i" using e5(1) c4 by simp
  show "ctl s' = ctl s" using e1(1) e2(2) e3(2) e4(2) e5(2) by simp
  show "trace s' = trace s @ [MarkDirty ''water'', FlushObjects i, FlushMaterials i,
           FlushPass i, SimStep, CopyVertices i]"
    using e1(2) e2(3) e3(3) e4(3) e5(3) i2 i3 i4 i5 by simp
  show "\<forall>k. k \<noteq> i \<longrightarrow> mFrameResources s' ! k = mFrameResources s ! k"
    using e1(3) e2(4) e3(4) e4(4) e5(4) i2 i3 i4 i5 by simp
qed

lemma WaitForSingleObject_Some:
  assumes "WaitForSingleObject dev fence t = Some t'"
  shows "t \<le> t' \<and> fence \<le> GetCompletedValue dev t' \<and>
   (\<forall>u. t \<le> u \<and> u < t' \<longrightarrow> GetCompletedValue dev u < fence)"
proof (rule WaitForSingleObject.raw_induct[where P = "\<lambda>dev fence t t'.
    t \<le> t' \<and> fence \<le> GetCompletedValue dev t' \<and>
    (\<forall>u. t \<le> u \<and> u < t' \<longrightarrow> GetCompletedValue dev u < fence)", OF _ assms])
  fix W :: "Device \<Rightarrow> 64 word \<Rightarrow> nat \<Rightarrow> nat option" and dev fence t y
  assume IH: "\<And>dev fence t y. W dev fence t = Some y \<Longrightarrow>
      t \<le> y \<and> fence \<le> GetCompletedValue dev y \<and>
      (\<forall>u. t \<le> u \<and> u < y \<longrightarrow> GetCompletedValue dev u < fence)"
    and eq: "(if fence \<le> GetCompletedValue dev t then Some t
              else W dev fence (t + 1)) = Some y"
  show "t \<le> y \<and> fence \<le> GetCompletedValue dev y \<and>
      (\<forall>u. t \<le> u \<and> u < y \<longrightarrow> GetCompletedValue dev u < fence)"
  proof (cases "fence \<le> GetCompletedValue dev t")
    case True
    with eq show ?thesis by auto
  next
    case False
    with eq have w: "W dev fence (t + 1) = Some y" by simp
    from IH[OF w] have ih: "t + 1 \<le> y" "fence \<le> GetCompletedValue dev y"
      "\<forall>u. t + 1 \<le> u \<and> u < y \<longrightarrow> GetCompletedValue dev u < fence"
      by simp_all
    have "GetCompletedValue dev u < fence" if "t \<le> u" "u < y" for u
    proof (cases "u = t")
      case True
      with False show ?thesis by simp
    next
      case False
      with that ih(3) show ?thesis by simp
    qed
    with ih show ?thesis by simp
  qed
qed

lemma WaitForSingleObject_reached:
  "fence \<le> GetCompletedValue dev (t + d) \<Longrightarrow> \<exists>t'. WaitForSingleObject dev fence t = Some t'"
proof (induction d arbitrary: t)
  case 0
  then show ?case by (subst WaitForSingleObject.simps) simp
next
  case (Suc d)
  from Suc.prems have "fence \<le> GetCompletedValue dev ((t + 1) + d)" by simp
  from Suc.IH[OF this] obtain t' where "WaitForSingleObject dev fence (t + 1) = Some t'"
    by blast
  then show ?case by (subst WaitForSingleObject.simps) simp
qed

lemma WaitForSingleObject_None:
  "WaitForSingleObject dev fence t = None \<longleftrightarrow>
   (\<forall>u. t \<le> u \<longrightarrow> GetCompletedValue dev u < fence)"
proof
  assume n: "WaitForSingleObject dev fence t = None"
  show "\<forall>u. t \<le> u \<longrightarrow> GetCompletedValue dev u < fence"
  proof (intro allI impI)
    fix u assume "t \<le> u"
    show "GetCompletedValue dev u < fence"
    proof (rule ccontr)
      assume "\<not> GetCompletedValue dev u < fence"
      then have "fence \<le> GetCompletedValue dev (t + (u - t))" using \<open>t \<le> u\<close> by simp
      from WaitForSingleObject_reached[OF this] n show False by simp
    qed
  qed
next
  assume a: "\<forall>u. t \<le> u \<longrightarrow> GetCompletedValue dev u < fence"
  show "WaitForSingleObject dev fence t = None"
  proof (cases "WaitForSingleObject dev fence t")
    case None
    then show ?thesis .
  next
    case (Some t')
    from WaitForSingleObject_Some[OF Some] a show ?thesis by (auto simp: not_le[symmetric])
  qed
qed

text \<open>The slot \<open>Update\<close> moves to, and the fence value it finds there.\<close>

lemma next_slot_range:
  "0 \<le> (c::int) \<Longrightarrow> 0 \<le> (c + 1) smod gNumFrameResources \<and>
     (c + 1) smod gNumFrameResources < gNumFrameResources"
  by (simp add: signed_modulo_int_def gNumFrameResources_def sgn_if)

lemma next_slot_valid:
  assumes "0 \<le> mCurrFrameResourceIndex s"
    "length (mFrameResources s) = nat gNumFrameResources"
  shows "0 \<le> (mCurrFrameResourceIndex s + 1) smod gNumFrameResources"
    "(mCurrFrameResourceIndex s + 1) smod gNumFrameResources < int (length (mFrameResources s))"
    "next_slot s < length (mFrameResources s)"
proof -
  from next_slot_range[OF assms(1)]
  show a: "0 \<le> (mCurrFrameResourceIndex s + 1) smod gNumFrameResources" by simp
  from next_slot_range[OF assms(1)] assms(2)
  show b: "(mCurrFrameResourceIndex s + 1) smod gNumFrameResources < int (length (mFrameResources s))"
    by (simp add: gNumFrameResources_def)
  from a b show "next_slot s < length (mFrameResources s)"
    by (simp add: next_slot_def nat_less_iff)
qed

lemma acquired_simps:
  "mFrameResources (acquired s) = mFrameResources s"
  "clock (acquired s) = clock s"
  "mCurrentFence (acquired s) = mCurrentFence s"
  "mCurrFrameResource (acquired s) = Some (next_slot s)"
  "trace (acquired s) = trace s @ [Acquire (next_slot s)]"
  by (simp_all add: acquired_def log_event_def)

lemma Update_cases:
  fixes s :: "('a::linordered_field, 'p) App"
  assumes "0 \<le> (mCurrFrameResourceIndex s + 1) smod gNumFrameResources"
    "(mCurrFrameResourceIndex s + 1) smod gNumFrameResources < int (length (mFrameResources s))"
  shows "Update dev W pass dT s =
    (if Fence (mFrameResources s ! next_slot s) \<noteq> 0 \<and>
        GetCompletedValue dev (clock s) < Fence (mFrameResources s ! next_slot s)
     then if SetEventOnCompletion_ok dev
       then (case WaitForSingleObject dev (Fence (mFrameResources s ! next_slot s)) (clock s) of
               None \<Rightarrow> None
             | Some t \<Rightarrow> Some (Update_calls W pass dT
                 (log_event (Blocked (next_slot s)) ((acquired s)\<lparr>clock := t\<rparr>))))
       else Some (Inl DxException)
     else Some (Update_calls W pass dT (acquired s)))"
  using assms
  by (simp add: Update_def Let_def acquired_def next_slot_def log_event_def not_le
      split: option.splits)

lemma Update_Inr_ring:
  fixes s :: "('a::linordered_field, 'p) App"
  assumes "Update dev W pass dT s = Some (Inr s')"
  shows "0 \<le> (mCurrFrameResourceIndex s + 1) smod gNumFrameResources"
    "(mCurrFrameResourceIndex s + 1) smod gNumFrameResources < int (length (mFrameResources s))"
    "next_slot s < length (mFrameResources s)"
proof -
  have "\<not> ((mCurrFrameResourceIndex s + 1) smod gNumFrameResources < 0 \<or>
     int (length (mFrameResources s)) \<le> (mCurrFrameResourceIndex s + 1) smod gNumFrameResources)"
    using assms by (auto simp: Update_def Let_def)
  then show "0 \<le> (mCurrFrameResourceIndex s + 1) smod gNumFrameResources"
    "(mCurrFrameResourceIndex s + 1) smod gNumFrameResources < int (length (mFrameResources s))"
    by simp_all
  then show "next_slot s < length (mFrameResources s)"
    by (simp add: next_slot_def nat_less_iff)
qed

text \<open>
  A returning \<open>Update\<close> ran its five calls from the state in which the slot had been
  taken and the wait, if there was one, had ended.
\<close>

lemma Update_Inr_calls:
  fixes s :: "('a::linordered_field, 'p) App"
  assumes u: "Update dev W pass dT s = Some (Inr s')"
  defines "i \<equiv> next_slot s"
  defines "f \<equiv> Fence (mFrameResources s ! next_slot s)"
  obtains s0 where "Update_calls W pass dT s0 = Inr s'"
    "mCurrFrameResource s0 = Some i" "mCurrentFence s0 = mCurrentFence s"
    "mFrameResources s0 = mFrameResources s"
    "trace s0 = trace s @ [Acquire i] @
       (if f \<noteq> 0 \<and> GetCompletedValue dev (clock s) < f then [Blocked i] else [])"
    "\<not> (f \<noteq> 0 \<and> GetCompletedValue dev (clock s) < f) \<longrightarrow> clock s0 = clock s"
    "f \<noteq> 0 \<and> GetCompletedValue dev (clock s) < f \<longrightarrow>
       WaitForSingleObject dev f (clock s) = Some (clock s0)"
    "mAllRitems s0 = mAllRitems s" "mMaterials s0 = mMaterials s" "mWaves s0 = mWaves s"
proof -
  note ring = Update_Inr_ring[OF u]
  note c = Update_cases[OF ring(1,2), of dev W pass dT]
  let ?blk = "f \<noteq> 0 \<and> GetCompletedValue dev (clock s) < f"
  show ?thesis
  proof (cases ?blk)
    case False
    with u c have r: "Update_calls W pass dT (acquired s) = Inr s'"
      by (auto simp: f_def)
    have e1: "(if ?blk then [Blocked i] else []) = []" by (rule if_not_P[OF False])
    show ?thesis
    proof (rule that[of "acquired s"])
      show "Update_calls W pass dT (acquired s) = Inr s'" by fact
      show "mCurrFrameResource (acquired s) = Some i" by (simp add: acquired_simps i_def)
      show "mCurrentFence (acquired s) = mCurrentFence s" by (simp add: acquired_simps)
      show "mFrameResources (acquired s) = mFrameResources s" by (simp add: acquired_simps)
      show "trace (acquired s) = trace s @ [Acquire i] @ (if ?blk then [Blocked i] else [])"
        unfolding e1 by (simp add: acquired_simps i_def)
      show "\<not> ?blk \<longrightarrow> clock (acquired s) = clock s" by (simp add: acquired_simps)
      show "?blk \<longrightarrow> WaitForSingleObject dev f (clock s) = Some (clock (acquired s))"
        using False by blast
      show "mAllRitems (acquired s) = mAllRitems s" "mMaterials (acquired s) = mMaterials s"
        "mWaves (acquired s) = mWaves s"
        by (simp_all add: acquired_def log_event_def)
    qed
  next
    case True
    with u c have ok: "SetEventOnCompletion_ok dev"
      by (auto simp: f_def split: if_splits)
    with True u c obtain t where w: "WaitForSingleObject dev f (clock s) = Some t"
      and r: "Update_calls W pass dT (log_event (Blocked i) ((acquired s)\<lparr>clock := t\<rparr>)) = Inr s'"
      by (cases "WaitForSingleObject dev f (clock s)") (auto simp: f_def i_def)
    have e1: "(if ?blk then [Blocked i] else []) = [Blocked i]" by (rule if_P[OF True])
    show ?thesis
    proof (rule that[of "log_event (Blocked i) ((acquired s)\<lparr>clock := t\<rparr>)"])
      show "Update_calls W pass dT (log_event (Blocked i) ((acquired s)\<lparr>clock := t\<rparr>)) = Inr s'"
        by fact
      show "mCurrFrameResource (log_event (Blocked i) ((acquired s)\<lparr>clock := t\<rparr>)) = Some i"
        by (simp add: acquired_simps log_event_def i_def)
      show "mCurrentFence (log_event (Blocked i) ((acquired s)\<lparr>clock := t\<rparr>)) = mCurrentFence s"
        by (simp add: acquired_simps log_event_def)
      show "mFrameResources (log_event (Blocked i) ((acquired s)\<lparr>clock := t\<rparr>)) =
          mFrameResources s"
        by (simp add: acquired_simps log_event_def)
      show "trace (log_event (Blocked i) ((acquired s)\<lparr>clock := t\<rparr>)) =
          trace s @ [Acquire i] @ (if ?blk then [Blocked i] else [])"
        unfolding e1 by (simp add: acquired_simps log_event_def i_def)
      show "\<not> ?blk \<longrightarrow> clock (log_event (Blocked i) ((acquired s)\<lparr>clock := t\<rparr>)) = clock s"
        using True by blast
      show "?blk \<longrightarrow> WaitForSingleObject dev f (clock s) =
          Some (clock (log_event (Blocked i) ((acquired s)\<lparr>clock := t\<rparr>)))"
        using w by (simp add: log_event_def)
      show "mAllRitems (log_event (Blocked i) ((acquired s)\<lparr>clock := t\<rparr>)) = mAllRitems s"
        "mMaterials (log_event (Blocked i) ((acquired s)\<lparr>clock := t\<rparr>)) = mMaterials s"
        "mWaves (log_event (Blocked i) ((acquired s)\<lparr>clock := t\<rparr>)) = mWaves s"
        by (simp_all add: acquired_def log_event_def)
    qed
  qed
qed

text \<open>What a returning \<open>Update\<close> has done.\<close>

lemma Update_Inr:
  fixes s :: "('a::linordered_field, 'p) App"
  assumes u: "Update dev W pass dT s = Some (Inr s')"
  defines "i \<equiv> next_slot s"
  defines "f \<equiv> Fence (mFrameResources s ! next_slot s)"
  shows "mCurrFrameResource s' = Some i"
    and "mCurrentFence s' = mCurrentFence s"
    and "map Fence (mFrameResources s') = map Fence (mFrameResources s)"
    and "length (mFrameResources s') = length (mFrameResources s)"
    and "\<forall>k. k \<noteq> i \<longrightarrow> mFrameResources s' ! k = mFrameResources s ! k"
    and "trace s' = trace s @ [Acquire i] @
           (if f \<noteq> 0 \<and> GetCompletedValue dev (clock s) < f then [Blocked i] else []) @
           [MarkDirty ''water'', FlushObjects i, FlushMaterials i, FlushPass i, SimStep,
            CopyVertices i]"
    and "\<not> (f \<noteq> 0 \<and> GetCompletedValue dev (clock s) < f) \<longrightarrow> clock s' = clock s"
    and "f \<noteq> 0 \<and> GetCompletedValue dev (clock s) < f \<longrightarrow>
           WaitForSingleObject dev f (clock s) = Some (clock s')"
proof -
  note ring = Update_Inr_ring[OF u]
  note c = Update_cases[OF ring(1,2), of dev W pass dT]
  let ?blk = "f \<noteq> 0 \<and> GetCompletedValue dev (clock s) < f"
  obtain s0 where s0: "Update_calls W pass dT s0 = Inr s'"
    and s0c: "mCurrFrameResource s0 = Some i" "mCurrentFence s0 = mCurrentFence s"
      "mFrameResources s0 = mFrameResources s"
      "trace s0 = trace s @ [Acquire i] @ (if ?blk then [Blocked i] else [])"
      "\<not> ?blk \<longrightarrow> clock s0 = clock s"
      "?blk \<longrightarrow> WaitForSingleObject dev f (clock s) = Some (clock s0)"
    unfolding i_def f_def by (rule Update_Inr_calls[OF u])
  note e = Update_calls_effect[OF s0 s0c(1)]
  from e(1) s0c show "mCurrFrameResource s' = Some i" by (simp add: ctl_def)
  from e(1) s0c show "mCurrentFence s' = mCurrentFence s" by (simp add: ctl_def)
  from e(1) s0c show "map Fence (mFrameResources s') = map Fence (mFrameResources s)"
    by (simp add: ctl_def)
  from e(1) s0c show "length (mFrameResources s') = length (mFrameResources s)"
    by (simp add: ctl_def)
  from e(3) s0c show "\<forall>k. k \<noteq> i \<longrightarrow> mFrameResources s' ! k = mFrameResources s ! k"
    by simp
  from e(2) s0c(4) show "trace s' = trace s @ [Acquire i] @
           (if ?blk then [Blocked i] else []) @
           [MarkDirty ''water'', FlushObjects i, FlushMaterials i, FlushPass i, SimStep,
            CopyVertices i]"
    by simp
  have cl: "clock s' = clock s0" using e(1) by (simp add: ctl_def)
  from s0c(5) cl show "\<not> ?blk \<longrightarrow> clock s' = clock s" by simp
  from s0c(6) cl show "?blk \<longrightarrow> WaitForSingleObject dev f (clock s) = Some (clock s')"
    by simp
qed

lemma Draw_Inr:
  assumes "Draw dev s = Inr s'"
  obtains i where "mCurrFrameResource s = Some i" "i < length (mFrameResources s)"
    "trace s' = trace s @ [Record i, Submit i, Publish i (mCurrentFence s + 1)]"
    "mCurrentFence s' = mCurrentFence s + 1"
    "mFrameResources s' =
       (mFrameResources s)[i := (mFrameResources s ! i)\<lparr>Fence := mCurrentFence s + 1\<rparr>]"
    "clock s' = clock s" "mCurrFrameResourceIndex s' = mCurrFrameResourceIndex s"
proof -
  from assms obtain i where i: "mCurrFrameResource s = Some i"
    by (cases "mCurrFrameResource s") (simp_all add: Draw_def)
  with assms have l: "i < length (mFrameResources s)"
    by (simp add: Draw_def split: if_splits)
  with assms i have ok: "Draw_ok dev"
    by (simp add: Draw_def split: if_splits)
  with assms i l have s': "s' = log_event (Publish i (mCurrentFence s + 1))
      ((log_event (Submit i) (log_event (Record i) s))
         \<lparr>mCurrentFence := mCurrentFence s + 1,
          mFrameResources :=
            (mFrameResources s)[i := (mFrameResources s ! i)\<lparr>Fence := mCurrentFence s + 1\<rparr>]\<rparr>)"
    by (simp add: Draw_def Let_def log_event_def)
  show ?thesis
    by (rule that[OF i l]) (simp_all add: s' log_event_def)
qed

lemma Frame_Inr:
  fixes s :: "('a::linordered_field, 'p) App"
  assumes "Frame dev W pass dT s = Some (Inr s')"
  obtains s1 where "Update dev W pass dT s = Some (Inr s1)" "Draw dev s1 = Inr s'"
proof -
  from assms obtain r where r: "Update dev W pass dT s = Some r"
    by (cases "Update dev W pass dT s") (simp_all add: Frame_def)
  with assms obtain s1 where "r = Inr s1" by (cases r) (simp_all add: Frame_def)
  with r assms that show ?thesis by (simp add: Frame_def)
qed

lemma Frame_trace:
  fixes s :: "('a::linordered_field, 'p) App"
  assumes fr: "Frame dev W pass dT s = Some (Inr s')"
  shows "trace s' = trace s @ [Acquire (next_slot s)] @
     (if Fence (mFrameResources s ! next_slot s) \<noteq> 0 \<and>
         GetCompletedValue dev (clock s) < Fence (mFrameResources s ! next_slot s)
      then [Blocked (next_slot s)] else []) @
     [MarkDirty ''water'', FlushObjects (next_slot s), FlushMaterials (next_slot s),
      FlushPass (next_slot s), SimStep, CopyVertices (next_slot s),
      Record (next_slot s), Submit (next_slot s),
      Publish (next_slot s) (mCurrentFence s + 1)]"
proof -
  from fr obtain s1 where u: "Update dev W pass dT s = Some (Inr s1)"
    and d: "Draw dev s1 = Inr s'"
    by (rule Frame_Inr)
  note e = Update_Inr[OF u]
  from d obtain i where i: "mCurrFrameResource s1 = Some i"
    and t: "trace s' = trace s1 @ [Record i, Submit i, Publish i (mCurrentFence s1 + 1)]"
    by (rule Draw_Inr)
  from i e(1) have "i = next_slot s" by simp
  with t e(2) e(6) show ?thesis by simp
qed

text \<open>
  Claim C5. On a ring of three slots, \<open>Update\<close> returns without waiting when the slot
  it moves to was never submitted or its fence value has been reached. Otherwise, once
  the event is armed, it returns exactly if the completed value reaches the fence value
  at some instant, and then at the first such instant. Whenever \<open>Update\<close> returns, the
  slot was never submitted or its fence value has been reached, and no other slot has
  been written. Nothing is written before that: the slot is taken, then the wait, if
  there is one, takes place, and only then the edit, the three flushes, the simulation
  step and the vertex copy follow, in a run of the five calls that starts at the instant
  \<open>Update\<close> returns at, from the buffers, the render items, the materials and the waves
  that \<open>Update\<close> was entered with.
\<close>

theorem acquire_blocks_until_fence:
  fixes s :: "('a::linordered_field, 'p) App"
  assumes ring: "0 \<le> mCurrFrameResourceIndex s"
    "length (mFrameResources s) = nat gNumFrameResources"
  shows
    "(next_fence s = 0 \<or> next_fence s \<le> GetCompletedValue dev (clock s) \<longrightarrow>
        Update dev W pass dT s \<noteq> None \<and>
        (\<forall>s'. Update dev W pass dT s = Some (Inr s') \<longrightarrow> clock s' = clock s)) \<and>
     (next_fence s \<noteq> 0 \<and> GetCompletedValue dev (clock s) < next_fence s \<and>
      SetEventOnCompletion_ok dev \<longrightarrow>
        (Update dev W pass dT s = None \<longleftrightarrow>
           (\<forall>t\<ge>clock s. GetCompletedValue dev t < next_fence s)) \<and>
        (\<forall>s'. Update dev W pass dT s = Some (Inr s') \<longrightarrow>
           clock s < clock s' \<and>
           (\<forall>t. clock s \<le> t \<and> t < clock s' \<longrightarrow> GetCompletedValue dev t < next_fence s))) \<and>
     (\<forall>s'. Update dev W pass dT s = Some (Inr s') \<longrightarrow>
        (next_fence s = 0 \<or> next_fence s \<le> GetCompletedValue dev (clock s')) \<and>
        (\<forall>k. k \<noteq> next_slot s \<longrightarrow> mFrameResources s' ! k = mFrameResources s ! k) \<and>
        trace s' = trace s @ [Acquire (next_slot s)] @
          (if next_fence s \<noteq> 0 \<and> GetCompletedValue dev (clock s) < next_fence s
           then [Blocked (next_slot s)] else []) @
          [MarkDirty ''water'', FlushObjects (next_slot s), FlushMaterials (next_slot s),
           FlushPass (next_slot s), SimStep, CopyVertices (next_slot s)] \<and>
        (\<exists>s1. Update_calls W pass dT s1 = Inr s' \<and> clock s1 = clock s' \<and>
           mFrameResources s1 = mFrameResources s \<and> mAllRitems s1 = mAllRitems s \<and>
           mMaterials s1 = mMaterials s \<and> mWaves s1 = mWaves s \<and>
           trace s1 = trace s @ [Acquire (next_slot s)] @
             (if next_fence s \<noteq> 0 \<and> GetCompletedValue dev (clock s) < next_fence s
              then [Blocked (next_slot s)] else [])))"
proof (intro conjI impI allI)
  note v = next_slot_valid[OF ring]
  note c = Update_cases[OF v(1,2), of dev W pass dT, folded next_fence_def]
  {
    assume a: "next_fence s = 0 \<or> next_fence s \<le> GetCompletedValue dev (clock s)"
    then have nb: "\<not> (next_fence s \<noteq> 0 \<and> GetCompletedValue dev (clock s) < next_fence s)"
      by auto
    from c show "Update dev W pass dT s \<noteq> None" unfolding if_not_P[OF nb] by simp
    fix s' assume u: "Update dev W pass dT s = Some (Inr s')"
    from Update_Inr(7)[OF u, folded next_fence_def] nb show "clock s' = clock s" by blast
  }
  {
    assume a: "next_fence s \<noteq> 0 \<and> GetCompletedValue dev (clock s) < next_fence s \<and>
      SetEventOnCompletion_ok dev"
    then have blk: "next_fence s \<noteq> 0 \<and> GetCompletedValue dev (clock s) < next_fence s"
      and ok: "SetEventOnCompletion_ok dev" by simp_all
    have c': "Update dev W pass dT s =
        (case WaitForSingleObject dev (next_fence s) (clock s) of
           None \<Rightarrow> None
         | Some t \<Rightarrow> Some (Update_calls W pass dT
             (log_event (Blocked (next_slot s)) ((acquired s)\<lparr>clock := t\<rparr>))))"
      using c unfolding if_P[OF blk] if_P[OF ok] .
    have "Update dev W pass dT s = None \<longleftrightarrow>
        WaitForSingleObject dev (next_fence s) (clock s) = None"
      unfolding c' by (simp split: option.splits)
    then show "Update dev W pass dT s = None \<longleftrightarrow>
        (\<forall>t\<ge>clock s. GetCompletedValue dev t < next_fence s)"
      by (simp add: WaitForSingleObject_None)
    fix s' assume u: "Update dev W pass dT s = Some (Inr s')"
    from Update_Inr(8)[OF u, folded next_fence_def] blk
    have w: "WaitForSingleObject dev (next_fence s) (clock s) = Some (clock s')"
      by blast
    note ws = WaitForSingleObject_Some[OF w]
    show "clock s < clock s'"
    proof (rule ccontr)
      assume "\<not> clock s < clock s'"
      with ws have "clock s' = clock s" by simp
      with ws blk show False by (simp add: not_le[symmetric])
    qed
    fix t assume "clock s \<le> t \<and> t < clock s'"
    with ws show "GetCompletedValue dev t < next_fence s" by blast
  }
  {
    fix s' assume u: "Update dev W pass dT s = Some (Inr s')"
    show "next_fence s = 0 \<or> next_fence s \<le> GetCompletedValue dev (clock s')"
    proof (cases "next_fence s \<noteq> 0 \<and> GetCompletedValue dev (clock s) < next_fence s")
      case True
      with Update_Inr(8)[OF u, folded next_fence_def]
      have w: "WaitForSingleObject dev (next_fence s) (clock s) = Some (clock s')"
        by blast
      from WaitForSingleObject_Some[OF w] show ?thesis by simp
    next
      case False
      with Update_Inr(7)[OF u, folded next_fence_def] have "clock s' = clock s" by blast
      with False show ?thesis by auto
    qed
    show "trace s' = trace s @ [Acquire (next_slot s)] @
          (if next_fence s \<noteq> 0 \<and> GetCompletedValue dev (clock s) < next_fence s
           then [Blocked (next_slot s)] else []) @
          [MarkDirty ''water'', FlushObjects (next_slot s), FlushMaterials (next_slot s),
           FlushPass (next_slot s), SimStep, CopyVertices (next_slot s)]"
      by (rule Update_Inr(6)[OF u, folded next_fence_def])
    show "\<exists>s1. Update_calls W pass dT s1 = Inr s' \<and> clock s1 = clock s' \<and>
           mFrameResources s1 = mFrameResources s \<and> mAllRitems s1 = mAllRitems s \<and>
           mMaterials s1 = mMaterials s \<and> mWaves s1 = mWaves s \<and>
           trace s1 = trace s @ [Acquire (next_slot s)] @
             (if next_fence s \<noteq> 0 \<and> GetCompletedValue dev (clock s) < next_fence s
              then [Blocked (next_slot s)] else [])"
    proof -
      from u obtain s0 where s0: "Update_calls W pass dT s0 = Inr s'"
        "mCurrFrameResource s0 = Some (next_slot s)"
        "mFrameResources s0 = mFrameResources s"
        "trace s0 = trace s @ [Acquire (next_slot s)] @
           (if next_fence s \<noteq> 0 \<and> GetCompletedValue dev (clock s) < next_fence s
            then [Blocked (next_slot s)] else [])"
        "mAllRitems s0 = mAllRitems s" "mMaterials s0 = mMaterials s" "mWaves s0 = mWaves s"
        unfolding next_fence_def by (rule Update_Inr_calls)
      from Update_calls_effect(1)[OF s0(1,2)] have "clock s0 = clock s'"
        by (simp add: ctl_def)
      with s0 show ?thesis by blast
    qed
    fix k assume "k \<noteq> next_slot s"
    with Update_Inr(5)[OF u] show "mFrameResources s' ! k = mFrameResources s ! k" by simp
  }
qed

lemma example_busy_ring:
  "0 \<le> mCurrFrameResourceIndex example_busy"
  "length (mFrameResources example_busy) = nat gNumFrameResources"
  "next_slot example_busy = 1" "next_fence example_busy = 1" "clock example_busy = 0"
  by (simp_all add: example_busy_def example_app_def gNumFrameResources_def next_slot_def
      next_fence_def signed_modulo_int_def example_frame_def)

lemma example_app_ring:
  "0 \<le> mCurrFrameResourceIndex example_app"
  "length (mFrameResources example_app) = nat gNumFrameResources"
  "next_slot example_app = 1" "next_fence example_app = 0" "clock example_app = 0"
  "trace example_app = []"
  by (simp_all add: example_app_def gNumFrameResources_def next_slot_def
      next_fence_def signed_modulo_int_def example_frame_def)

lemma example_updates_return:
  "case Update slow_device example_Waves_Update () (1 / 60) example_busy of
     Some (Inr s') \<Rightarrow> clock s' = 5 | _ \<Rightarrow> False"
  "case Update example_device example_Waves_Update () (1 / 60) example_app of
     Some (Inr s') \<Rightarrow> True | _ \<Rightarrow> False"
  by code_simp+

theorem acquire_blocks_until_fence_witness:
  "0 \<le> mCurrFrameResourceIndex example_busy \<and>
   length (mFrameResources example_busy) = nat gNumFrameResources \<and>
   (\<exists>s'. Update slow_device example_Waves_Update () (1 / 60) example_busy = Some (Inr s') \<and>
      clock s' = 5 \<and> 1 \<le> GetCompletedValue slow_device (clock s') \<and>
      GetCompletedValue slow_device 4 < 1 \<and>
      mFrameResources s' ! 0 = example_frame\<lparr>Fence := 3\<rparr> \<and>
      mFrameResources s' ! 2 = example_frame\<lparr>Fence := 2\<rparr> \<and>
      trace s' =
        [Publish 1 1, Publish 2 2, Publish 0 3, Acquire 1, Blocked 1, MarkDirty ''water'',
         FlushObjects 1, FlushMaterials 1, FlushPass 1, SimStep, CopyVertices 1]) \<and>
   (\<exists>s'. Update example_device example_Waves_Update () (1 / 60) example_app = Some (Inr s') \<and>
      clock s' = 0 \<and>
      trace s' =
        [Acquire 1, MarkDirty ''water'', FlushObjects 1, FlushMaterials 1, FlushPass 1,
         SimStep, CopyVertices 1])"
proof -
  note t = acquire_blocks_until_fence[OF example_busy_ring(1,2),
      of slow_device example_Waves_Update "()" "1 / 60"]
  from example_updates_return(1) obtain s' where
    u: "Update slow_device example_Waves_Update () (1 / 60) example_busy = Some (Inr s')"
    and c: "clock s' = 5"
    by (auto split: option.splits sum.splits)
  have blk: "next_fence example_busy \<noteq> 0 \<and>
      GetCompletedValue slow_device (clock example_busy) < next_fence example_busy"
    by (simp add: example_busy_ring slow_device_def)
  from t u have f: "next_fence example_busy = 0 \<or>
      next_fence example_busy \<le> GetCompletedValue slow_device (clock s')"
    and k: "\<forall>k. k \<noteq> next_slot example_busy \<longrightarrow>
      mFrameResources s' ! k = mFrameResources example_busy ! k"
    and tr: "trace s' = trace example_busy @ [Acquire (next_slot example_busy)] @
          (if next_fence example_busy \<noteq> 0 \<and>
              GetCompletedValue slow_device (clock example_busy) < next_fence example_busy
           then [Blocked (next_slot example_busy)] else []) @
          [MarkDirty ''water'', FlushObjects (next_slot example_busy),
           FlushMaterials (next_slot example_busy), FlushPass (next_slot example_busy),
           SimStep, CopyVertices (next_slot example_busy)]"
    by blast+
  from f have f': "1 \<le> GetCompletedValue slow_device (clock s')"
    by (simp add: example_busy_ring)
  from k have k': "mFrameResources s' ! 0 = example_frame\<lparr>Fence := 3\<rparr>"
    "mFrameResources s' ! 2 = example_frame\<lparr>Fence := 2\<rparr>"
    by (simp_all add: example_busy_ring) (simp_all add: example_busy_def example_app_def)
  have tr': "trace s' =
        [Publish 1 1, Publish 2 2, Publish 0 3, Acquire 1, Blocked 1, MarkDirty ''water'',
         FlushObjects 1, FlushMaterials 1, FlushPass 1, SimStep, CopyVertices 1]"
    using tr unfolding if_P[OF blk]
    by (simp add: example_busy_ring) (simp add: example_busy_def example_app_def)
  have lo: "GetCompletedValue slow_device 4 < 1" by (simp add: slow_device_def)
  note t2 = acquire_blocks_until_fence[OF example_app_ring(1,2),
      of example_device example_Waves_Update "()" "1 / 60"]
  from example_updates_return(2) obtain s2 where
    u2: "Update example_device example_Waves_Update () (1 / 60) example_app = Some (Inr s2)"
    by (auto split: option.splits sum.splits)
  have nb: "\<not> (next_fence example_app \<noteq> 0 \<and>
      GetCompletedValue example_device (clock example_app) < next_fence example_app)"
    by (simp add: example_app_ring)
  from t2 u2 have c2: "clock s2 = clock example_app"
    and tr2: "trace s2 = trace example_app @ [Acquire (next_slot example_app)] @
          (if next_fence example_app \<noteq> 0 \<and>
              GetCompletedValue example_device (clock example_app) < next_fence example_app
           then [Blocked (next_slot example_app)] else []) @
          [MarkDirty ''water'', FlushObjects (next_slot example_app),
           FlushMaterials (next_slot example_app), FlushPass (next_slot example_app),
           SimStep, CopyVertices (next_slot example_app)]"
    by (simp_all add: example_app_ring)
  have tr2': "trace s2 =
        [Acquire 1, MarkDirty ''water'', FlushObjects 1, FlushMaterials 1, FlushPass 1,
         SimStep, CopyVertices 1]"
    using tr2 unfolding if_not_P[OF nb] by (simp add: example_app_ring)
  from c2 have c2': "clock s2 = 0" by (simp add: example_app_ring)
  from u c f' lo k' tr' u2 c2' tr2' example_busy_ring(1,2) show ?thesis by blast
qed

text \<open>
  Claim C4, as the code has it. When the completed value never reaches the fence value
  of the slot \<open>Update\<close> moves to, \<open>Update\<close> does not return: the wait has no timeout and no
  device-loss error exists. The one error the acquisition can raise is the exception of
  \<open>ThrowIfFailed\<close> when \<open>SetEventOnCompletion\<close> fails.
\<close>

theorem fence_wait_has_no_timeout:
  fixes s :: "('a::linordered_field, 'p) App"
  assumes ring: "0 \<le> mCurrFrameResourceIndex s"
    "length (mFrameResources s) = nat gNumFrameResources"
    and submitted: "next_fence s \<noteq> 0"
    and never: "\<forall>t\<ge>clock s. GetCompletedValue dev t < next_fence s"
  shows "Update dev W pass dT s =
    (if SetEventOnCompletion_ok dev then None else Some (Inl DxException))"
proof -
  note v = next_slot_valid[OF ring]
  note c = Update_cases[OF v(1,2), of dev W pass dT, folded next_fence_def]
  from never have "GetCompletedValue dev (clock s) < next_fence s" by simp
  with submitted have blk: "next_fence s \<noteq> 0 \<and> GetCompletedValue dev (clock s) < next_fence s"
    by simp
  from never have w: "WaitForSingleObject dev (next_fence s) (clock s) = None"
    by (simp add: WaitForSingleObject_None)
  show ?thesis using c unfolding if_P[OF blk] w by simp
qed

theorem fence_wait_has_no_timeout_witness:
  "next_fence example_busy \<noteq> 0 \<and>
   Update unarmed_device example_Waves_Update () (1 / 60) example_busy = Some (Inl DxException) \<and>
   Update stuck_device example_Waves_Update () 0 example_busy = None"
proof -
  have s: "next_fence example_busy \<noteq> 0" by (simp add: example_busy_ring)
  have n1: "\<forall>t\<ge>clock example_busy. GetCompletedValue unarmed_device t < next_fence example_busy"
    by (simp add: example_busy_ring unarmed_device_def)
  have n2: "\<forall>t\<ge>clock example_busy. GetCompletedValue stuck_device t < next_fence example_busy"
    by (simp add: example_busy_ring stuck_device_def)
  from fence_wait_has_no_timeout[OF example_busy_ring(1,2) s n1,
      of example_Waves_Update "()" "1 / 60"]
    fence_wait_has_no_timeout[OF example_busy_ring(1,2) s n2, of example_Waves_Update "()" 0]
    s
  show ?thesis by (simp add: unarmed_device_def stuck_device_def)
qed

theorem fence_wait_timeout_counterexample:
  "Update stuck_device example_Waves_Update () (1 / 60) example_busy = None"
proof -
  note v = next_slot_valid[OF example_busy_ring(1,2)]
  note c = Update_cases[OF v(1,2), of stuck_device example_Waves_Update "()" "1 / 60",
      folded next_fence_def]
  have blk: "next_fence example_busy \<noteq> 0 \<and>
      GetCompletedValue stuck_device (clock example_busy) < next_fence example_busy"
    by (simp add: example_busy_ring stuck_device_def)
  have ok: "SetEventOnCompletion_ok stuck_device" by (simp add: stuck_device_def)
  have "\<forall>u. clock example_busy \<le> u \<longrightarrow>
      GetCompletedValue stuck_device u < next_fence example_busy"
    by (simp add: example_busy_ring stuck_device_def)
  then have w: "WaitForSingleObject stuck_device (next_fence example_busy) (clock example_busy) = None"
    by (simp add: WaitForSingleObject_None)
  show ?thesis using c unfolding if_P[OF blk] if_P[OF ok] w by simp
qed

text \<open>
  Claim C3, as the code has it. A frame that completes does, in this order: take the
  next slot (waiting on its fence if it has to), edit the water material, flush the
  object and the material constants into the slot, write the pass constants, advance
  the wave simulation, copy the wave vertices into the slot, record and submit the
  command list, and publish the slot with the next fence value. The constants are
  flushed before the simulation advances, not after the vertex copy.
\<close>

theorem frame_order:
  fixes s :: "('a::linordered_field, 'p) App"
  assumes "Frame dev W pass dT s = Some (Inr s')"
  shows "trace s' = trace s @ [Acquire (next_slot s)] @
     (if next_fence s \<noteq> 0 \<and> GetCompletedValue dev (clock s) < next_fence s
      then [Blocked (next_slot s)] else []) @
     [MarkDirty ''water'', FlushObjects (next_slot s), FlushMaterials (next_slot s),
      FlushPass (next_slot s), SimStep, CopyVertices (next_slot s),
      Record (next_slot s), Submit (next_slot s),
      Publish (next_slot s) (mCurrentFence s + 1)]"
  unfolding next_fence_def by (rule Frame_trace[OF assms])

lemma example_first_frame:
  "case Frame example_device example_Waves_Update () (1 / 60) example_app of
     Some (Inr s') \<Rightarrow> True | _ \<Rightarrow> False"
  by code_simp

theorem frame_order_witness:
  "\<exists>s'. Frame example_device example_Waves_Update () (1 / 60) example_app = Some (Inr s') \<and>
     trace s' =
       [Acquire 1, MarkDirty ''water'', FlushObjects 1, FlushMaterials 1, FlushPass 1,
        SimStep, CopyVertices 1, Record 1, Submit 1, Publish 1 1]"
proof -
  from example_first_frame obtain s' where
    f: "Frame example_device example_Waves_Update () (1 / 60) example_app = Some (Inr s')"
    by (auto split: option.splits sum.splits)
  have e: "next_slot example_app = 1" "next_fence example_app = 0"
    "mCurrentFence example_app = 0" "trace example_app = []"
    by (simp_all add: example_app_def next_slot_def next_fence_def gNumFrameResources_def
        signed_modulo_int_def example_frame_def)
  from frame_order[OF f] f show ?thesis by (simp add: e)
qed

theorem frame_order_counterexample:
  "happens_before (FlushObjects 1) SimStep example_frame_trace \<and>
   happens_before (FlushMaterials 1) (CopyVertices 1) example_frame_trace \<and>
   \<not> happens_before SimStep (FlushObjects 1) example_frame_trace \<and>
   \<not> happens_before (CopyVertices 1) (FlushMaterials 1) example_frame_trace"
  by code_simp









section \<open>The wave vertices of a slot\<close>

lemma WavesVB_loop_fills:
  fixes w :: "'a::linordered_field Waves"
  shows "0 \<le> i \<Longrightarrow> Width w \<noteq> 0 \<Longrightarrow> Depth w \<noteq> 0 \<Longrightarrow> VertexCount w \<le> int (length vb) \<Longrightarrow>
    \<exists>vb'. WavesVB_loop w i vb = Inr vb' \<and> length vb' = length vb \<and>
      (\<forall>j. i \<le> j \<and> j < VertexCount w \<longrightarrow> wave_vertex w j = Inr (vb' ! nat j)) \<and>
      (\<forall>k<nat i. vb' ! k = vb ! k)"
proof (induction w i vb rule: WavesVB_loop.induct)
  case (1 w i vb)
  show ?case
  proof (cases "i < VertexCount w")
    case False
    then have "WavesVB_loop w i vb = Inr vb" by (subst WavesVB_loop.simps) simp
    with False show ?thesis by auto
  next
    case True
    obtain x y z where pos: "Position w i = (x, y, z)" by (cases "Position w i")
    define v where "v = \<lparr>Pos = (x, y, z), Normal = WavesNormal w i,
                    TexC = (1 / 2 + x / Width w, 1 / 2 - z / Depth w)\<rparr>"
    have wv: "wave_vertex w i = Inr v"
      using pos "1.prems"(2,3) by (simp add: wave_vertex_def v_def)
    have cd: "CopyData vb i v = Inr (vb[nat i := v])"
      using True "1.prems"(1,4) by (simp add: CopyData_def)
    have "0 \<le> i + 1" "VertexCount w \<le> int (length (vb[nat i := v]))"
      using "1.prems" by simp_all
    from "1.IH"[OF True wv cd this(1) "1.prems"(2,3) this(2)] obtain vb' where
      l: "WavesVB_loop w (i + 1) (vb[nat i := v]) = Inr vb'"
      and len: "length vb' = length (vb[nat i := v])"
      and fill: "\<forall>j. i + 1 \<le> j \<and> j < VertexCount w \<longrightarrow> wave_vertex w j = Inr (vb' ! nat j)"
      and keep: "\<forall>k<nat (i + 1). vb' ! k = vb[nat i := v] ! k"
      by blast
    have r: "WavesVB_loop w i vb = Inr vb'"
      using True wv cd l by (subst WavesVB_loop.simps) simp
    have at_i: "vb' ! nat i = v"
    proof -
      have "nat i < nat (i + 1)" using "1.prems"(1) by simp
      with keep have "vb' ! nat i = vb[nat i := v] ! nat i" by blast
      moreover have "nat i < length vb" using True "1.prems"(1,4) by simp
      ultimately show ?thesis by simp
    qed
    have f: "wave_vertex w j = Inr (vb' ! nat j)" if "i \<le> j" "j < VertexCount w" for j
    proof (cases "j = i")
      case True
      with wv at_i show ?thesis by simp
    next
      case False
      with that fill show ?thesis by simp
    qed
    have k: "vb' ! k = vb ! k" if "k < nat i" for k
    proof -
      from that "1.prems"(1) have "k < nat (i + 1)" by simp
      with keep have "vb' ! k = vb[nat i := v] ! k" by blast
      with that show ?thesis by simp
    qed
    from r len f k show ?thesis by simp
  qed
qed

text \<open>
  Claim C9. Take a wave grid of positive width and depth whose vertex buffer has room
  for its vertices. \<open>UpdateWaves\<close> then returns, and every vertex \<open>j\<close> it has written
  into the current slot carries the position and the normal of sample \<open>j\<close> and the
  texture coordinates \<open>u = 1/2 + x / Width\<close> and \<open>v = 1/2 - z / Depth\<close>; when \<open>x\<close> lies
  in \<open>[-Width/2, Width/2]\<close> and \<open>z\<close> in \<open>[-Depth/2, Depth/2]\<close>, both lie in \<open>[0, 1]\<close>.
  The arithmetic is exact: rounding to binary32 is not modelled.
\<close>

theorem wave_texcoords:
  fixes s :: "('a::linordered_field, 'p) App"
  assumes cur: "mCurrFrameResource s = Some i" "i < length (mFrameResources s)"
    and w: "w = Waves_Update (mWaves s) DeltaTime"
    and extent: "0 < Width w" "0 < Depth w"
    and room: "VertexCount w \<le> int (length (WavesVB (mFrameResources s ! i)))"
  shows "\<exists>s'. UpdateWaves Waves_Update DeltaTime s = Inr s' \<and>
    (\<forall>j x y z. 0 \<le> j \<and> j < VertexCount w \<and> Position w j = (x, y, z) \<longrightarrow>
       Pos (WavesVB (mFrameResources s' ! i) ! nat j) = (x, y, z) \<and>
       Normal (WavesVB (mFrameResources s' ! i) ! nat j) = WavesNormal w j \<and>
       TexC (WavesVB (mFrameResources s' ! i) ! nat j) =
         (1 / 2 + x / Width w, 1 / 2 - z / Depth w) \<and>
       (- Width w / 2 \<le> x \<and> x \<le> Width w / 2 \<longrightarrow>
          0 \<le> fst (TexC (WavesVB (mFrameResources s' ! i) ! nat j)) \<and>
          fst (TexC (WavesVB (mFrameResources s' ! i) ! nat j)) \<le> 1) \<and>
       (- Depth w / 2 \<le> z \<and> z \<le> Depth w / 2 \<longrightarrow>
          0 \<le> snd (TexC (WavesVB (mFrameResources s' ! i) ! nat j)) \<and>
          snd (TexC (WavesVB (mFrameResources s' ! i) ! nat j)) \<le> 1))"
proof -
  let ?s1 = "log_event SimStep (s\<lparr>mWaves := Waves_Update (mWaves s) DeltaTime\<rparr>)"
  have s1: "mWaves ?s1 = w" "mCurrFrameResource ?s1 = Some i"
    "mFrameResources ?s1 = mFrameResources s"
    using w cur by (simp_all add: log_event_def)
  from extent have nz: "Width w \<noteq> 0" "Depth w \<noteq> 0" by simp_all
  from WavesVB_loop_fills[OF _ nz room, of 0] obtain vb' where
    l: "WavesVB_loop w 0 (WavesVB (mFrameResources s ! i)) = Inr vb'"
    and fill: "\<forall>j. 0 \<le> j \<and> j < VertexCount w \<longrightarrow> wave_vertex w j = Inr (vb' ! nat j)"
    by auto
  define s' where "s' = log_event (CopyVertices i)
      (?s1\<lparr>mFrameResources := (mFrameResources ?s1)[i := (mFrameResources ?s1 ! i)\<lparr>WavesVB := vb'\<rparr>],
          mWavesVertexBufferGPU := Some i\<rparr>)"
  have u: "UpdateWaves Waves_Update DeltaTime s = Inr s'"
    using l cur(2) s1 unfolding UpdateWaves_def Let_def s'_def by simp
  have vb: "WavesVB (mFrameResources s' ! i) = vb'"
    using cur(2) by (simp add: s'_def log_event_def)
  have "Pos (vb' ! nat j) = (x, y, z) \<and> Normal (vb' ! nat j) = WavesNormal w j \<and>
       TexC (vb' ! nat j) = (1 / 2 + x / Width w, 1 / 2 - z / Depth w) \<and>
       (- Width w / 2 \<le> x \<and> x \<le> Width w / 2 \<longrightarrow>
          0 \<le> fst (TexC (vb' ! nat j)) \<and> fst (TexC (vb' ! nat j)) \<le> 1) \<and>
       (- Depth w / 2 \<le> z \<and> z \<le> Depth w / 2 \<longrightarrow>
          0 \<le> snd (TexC (vb' ! nat j)) \<and> snd (TexC (vb' ! nat j)) \<le> 1)"
    if j: "0 \<le> j" "j < VertexCount w" and p: "Position w j = (x, y, z)" for j x y z
  proof -
    from fill j have "wave_vertex w j = Inr (vb' ! nat j)" by simp
    with p nz have v: "vb' ! nat j = \<lparr>Pos = (x, y, z), Normal = WavesNormal w j,
        TexC = (1 / 2 + x / Width w, 1 / 2 - z / Depth w)\<rparr>"
      by (simp add: wave_vertex_def)
    have ux: "0 \<le> 1 / 2 + x / Width w \<and> 1 / 2 + x / Width w \<le> 1"
      if "- Width w / 2 \<le> x" "x \<le> Width w / 2"
    proof -
      have a: "(- Width w / 2) / Width w \<le> x / Width w"
        by (rule divide_right_mono[OF that(1) less_imp_le[OF extent(1)]])
      have b: "x / Width w \<le> (Width w / 2) / Width w"
        by (rule divide_right_mono[OF that(2) less_imp_le[OF extent(1)]])
      have c: "(- Width w / 2) / Width w = - (1 / 2)" and d: "(Width w / 2) / Width w = 1 / 2"
        using extent(1) by (simp_all add: field_simps)
      have lo: "- (1 / 2) \<le> x / Width w" using a unfolding c .
      have hi: "x / Width w \<le> 1 / 2" using b unfolding d .
      from lo hi show ?thesis by linarith
    qed
    have vz: "0 \<le> 1 / 2 - z / Depth w \<and> 1 / 2 - z / Depth w \<le> 1"
      if "- Depth w / 2 \<le> z" "z \<le> Depth w / 2"
    proof -
      have a: "(- Depth w / 2) / Depth w \<le> z / Depth w"
        by (rule divide_right_mono[OF that(1) less_imp_le[OF extent(2)]])
      have b: "z / Depth w \<le> (Depth w / 2) / Depth w"
        by (rule divide_right_mono[OF that(2) less_imp_le[OF extent(2)]])
      have c: "(- Depth w / 2) / Depth w = - (1 / 2)" and d: "(Depth w / 2) / Depth w = 1 / 2"
        using extent(2) by (simp_all add: field_simps)
      have lo: "- (1 / 2) \<le> z / Depth w" using a unfolding c .
      have hi: "z / Depth w \<le> 1 / 2" using b unfolding d .
      from lo hi show ?thesis by linarith
    qed
    from v ux vz show ?thesis by simp
  qed
  with u vb show ?thesis by blast
qed


theorem wave_texcoords_witness:
  "\<exists>s'. UpdateWaves example_Waves_Update (1 / 60) example_busy = Inr s' \<and>
     TexC (WavesVB (mFrameResources s' ! 0) ! 1) = (3 / 4, 1 / 4) \<and>
     Pos (WavesVB (mFrameResources s' ! 0) ! 1) = (1 / 2, 0, 1 / 2)"
proof -
  have cur: "mCurrFrameResource example_busy = Some 0"
    "0 < length (mFrameResources example_busy)"
    by (simp_all add: example_busy_def example_app_def)
  have w: "example_waves = example_Waves_Update (mWaves example_busy) (1 / 60)"
    by (simp add: example_busy_def example_app_def example_Waves_Update_def)
  have extent: "0 < Width example_waves" "0 < Depth example_waves"
    by (simp_all add: example_waves_def)
  have room: "VertexCount example_waves \<le>
      int (length (WavesVB (mFrameResources example_busy ! 0)))"
    by (simp add: example_waves_def example_busy_def example_app_def example_frame_def)
  from wave_texcoords[where Waves_Update = example_Waves_Update and DeltaTime = "1 / 60"
      and s = example_busy and w = example_waves and i = 0, OF cur w extent room]
  obtain s' where
    u: "UpdateWaves example_Waves_Update (1 / 60) example_busy = Inr s'"
    and v: "\<forall>j x y z. 0 \<le> j \<and> j < VertexCount example_waves \<and>
         Position example_waves j = (x, y, z) \<longrightarrow>
       Pos (WavesVB (mFrameResources s' ! 0) ! nat j) = (x, y, z) \<and>
       TexC (WavesVB (mFrameResources s' ! 0) ! nat j) =
         (1 / 2 + x / Width example_waves, 1 / 2 - z / Depth example_waves)"
    by blast
  from v[rule_format, of 1 "1 / 2" 0 "1 / 2"] u show ?thesis
    by (simp add: example_waves_def example_position_def)
qed

section \<open>The index buffer of the wave grid\<close>

lemma quad_Inr:
  assumes "0 \<le> k" "k + 6 \<le> int (length ind)"
  shows "\<exists>ind'. quad n i j k ind = Inr ind' \<and> length ind' = length ind \<and>
    (\<forall>p. p < nat k \<or> nat k + 6 \<le> p \<longrightarrow> ind' ! p = ind ! p) \<and>
    ind' ! nat k = word_of_int (i * n + j) \<and>
    ind' ! (nat k + 1) = word_of_int (i * n + j + 1) \<and>
    ind' ! (nat k + 2) = word_of_int ((i + 1) * n + j) \<and>
    ind' ! (nat k + 3) = word_of_int ((i + 1) * n + j) \<and>
    ind' ! (nat k + 4) = word_of_int (i * n + j + 1) \<and>
    ind' ! (nat k + 5) = word_of_int ((i + 1) * n + j + 1)"
proof -
  have n: "nat (k + 1) = nat k + 1" "nat (k + 2) = nat k + 2" "nat (k + 3) = nat k + 3"
    "nat (k + 4) = nat k + 4" "nat (k + 5) = nat k + 5"
    using assms(1) by simp_all
  have l: "nat k + 5 < length ind" using assms by simp
  show ?thesis
    using assms l
    by (simp add: quad_def vector_set_def bind_e_def n nth_list_update)
qed

lemma grid_index_quad:
  assumes "0 \<le> i" "0 \<le> j" "j < n - 1"
  shows "grid_index n (6 * (i * (n - 1) + j)) = i * n + j"
    "grid_index n (6 * (i * (n - 1) + j) + 1) = i * n + j + 1"
    "grid_index n (6 * (i * (n - 1) + j) + 2) = (i + 1) * n + j"
    "grid_index n (6 * (i * (n - 1) + j) + 3) = (i + 1) * n + j"
    "grid_index n (6 * (i * (n - 1) + j) + 4) = i * n + j + 1"
    "grid_index n (6 * (i * (n - 1) + j) + 5) = (i + 1) * n + j + 1"
proof -
  have d: "(i * (n - 1) + j) div (n - 1) = i" "(i * (n - 1) + j) mod (n - 1) = j"
    using assms by simp_all
  have g: "(6 * a + r) div 6 = a" "(6 * a + r) mod 6 = r" if "0 \<le> r" "r < 6" for a r :: int
    using that by presburger+
  have q: "(6 * (i * (n - 1) + j) + r) div 6 = i * (n - 1) + j"
    "(6 * (i * (n - 1) + j) + r) mod 6 = r" if "0 \<le> r" "r < 6" for r :: int
    using g[OF that] by blast+
  show "grid_index n (6 * (i * (n - 1) + j)) = i * n + j"
    using q[of 0] d by (simp add: grid_index_def Let_def)
  show "grid_index n (6 * (i * (n - 1) + j) + 1) = i * n + j + 1"
    using q[of 1] d by (simp add: grid_index_def Let_def)
  show "grid_index n (6 * (i * (n - 1) + j) + 2) = (i + 1) * n + j"
    using q[of 2] d by (simp add: grid_index_def Let_def)
  show "grid_index n (6 * (i * (n - 1) + j) + 3) = (i + 1) * n + j"
    using q[of 3] d by (simp add: grid_index_def Let_def)
  show "grid_index n (6 * (i * (n - 1) + j) + 4) = i * n + j + 1"
    using q[of 4] d by (simp add: grid_index_def Let_def)
  show "grid_index n (6 * (i * (n - 1) + j) + 5) = (i + 1) * n + j + 1"
    using q[of 5] d by (simp add: grid_index_def Let_def)
qed

lemma grid_index_bound:
  assumes "1 \<le> m" "1 \<le> n" "0 \<le> p" "p < 6 * (m - 1) * (n - 1)"
  shows "0 \<le> grid_index n p \<and> grid_index n p < m * n"
proof -
  define q where "q = p div 6"
  define i where "i = q div (n - 1)"
  define j where "j = q mod (n - 1)"
  from assms(3,4) have n1: "0 < n - 1"
    by (smt (verit) mult_nonneg_nonpos assms(1))
  define X where "X = (m - 1) * (n - 1)"
  have "6 * (m - 1) * (n - 1) = 6 * X" unfolding X_def by (rule mult.assoc)
  with assms(4) have pX: "p < 6 * X" by (simp only:)
  have pq: "p = 6 * q + p mod 6" by (simp add: q_def)
  have pm: "0 \<le> p mod 6" "p mod 6 < 6" by simp_all
  have q: "0 \<le> q" "q < X" using pX pq pm assms(3) by linarith+
  have j: "0 \<le> j" "j < n - 1" using n1 by (simp_all add: j_def)
  have qi: "q = (n - 1) * i + j" by (simp add: i_def j_def)
  have i0: "0 \<le> i" using q(1) n1 by (simp add: i_def pos_imp_zdiv_nonneg_iff)
  have i1: "i < m - 1"
  proof (rule ccontr)
    assume "\<not> i < m - 1"
    then have "(n - 1) * (m - 1) \<le> (n - 1) * i" using n1 by (simp add: mult_left_mono)
    with qi j(1) q(2) show False by (simp add: X_def mult.commute)
  qed
  define A where "A = i * n"
  define B where "B = (i + 1) * n"
  define M where "M = m * n"
  have "(i + 1) * n \<le> (m - 1) * n" using i1 assms(2) by (simp add: mult_right_mono)
  moreover have "(m - 1) * n + n = m * n" by (simp add: algebra_simps)
  ultimately have a: "B + n \<le> M" unfolding B_def M_def by linarith
  have b: "0 \<le> A" unfolding A_def using i0 assms(2) by simp
  have c: "A \<le> B" unfolding A_def B_def using assms(2) by (simp add: distrib_right)
  have "grid_index n p \<in> {i * n + j, i * n + j + 1, (i + 1) * n + j, (i + 1) * n + j + 1}"
    by (simp add: grid_index_def Let_def q_def[symmetric] i_def[symmetric] j_def[symmetric])
  then have "grid_index n p \<in> {A + j, A + j + 1, B + j, B + j + 1}"
    unfolding A_def B_def .
  then consider "grid_index n p = A + j" | "grid_index n p = A + j + 1"
    | "grid_index n p = B + j" | "grid_index n p = B + j + 1"
    by blast
  then have "0 \<le> grid_index n p \<and> grid_index n p < M"
    using a b c j by cases linarith+
  then show ?thesis unfolding M_def .
qed


lemma quads_of_row_fills:
  "0 \<le> i \<Longrightarrow> 0 \<le> j \<Longrightarrow> j \<le> n - 1 \<Longrightarrow> k = 6 * (i * (n - 1) + j) \<Longrightarrow>
   6 * (i * (n - 1) + (n - 1)) \<le> int (length ind) \<Longrightarrow>
   \<exists>ind'. quads_of_row n i j k ind = Inr (6 * (i * (n - 1) + (n - 1)), ind') \<and>
     length ind' = length ind \<and>
     (\<forall>p. 0 \<le> p \<and> p < k \<longrightarrow> ind' ! nat p = ind ! nat p) \<and>
     (\<forall>p. k \<le> p \<and> p < 6 * (i * (n - 1) + (n - 1)) \<longrightarrow>
          ind' ! nat p = word_of_int (grid_index n p))"
proof (induction n i j k ind rule: quads_of_row.induct)
  case (1 n i j k ind)
  define R where "R = i * (n - 1)"
  have R0: "0 \<le> R" unfolding R_def using "1.prems"(1,2,3) by simp
  have k: "k = 6 * (R + j)" using "1.prems"(4) by (simp add: R_def)
  have len: "6 * (R + (n - 1)) \<le> int (length ind)" using "1.prems"(5) by (simp add: R_def)
  show ?case
  proof (cases "j < n - 1")
    case False
    with "1.prems"(3) have "j = n - 1" by simp
    moreover from False have "quads_of_row n i j k ind = Inr (k, ind)"
      by (subst quads_of_row.simps) simp
    ultimately show ?thesis using "1.prems"(4) by auto
  next
    case True
    have k0: "0 \<le> k" using k R0 "1.prems"(2) by simp
    have k6: "k + 6 \<le> int (length ind)" using k len True by simp
    from quad_Inr[OF k0 k6, of n i j] obtain ind1 where
      q: "quad n i j k ind = Inr ind1" and l1: "length ind1 = length ind"
      and o1: "\<forall>p. p < nat k \<or> nat k + 6 \<le> p \<longrightarrow> ind1 ! p = ind ! p"
      and e: "ind1 ! nat k = word_of_int (i * n + j)"
        "ind1 ! (nat k + 1) = word_of_int (i * n + j + 1)"
        "ind1 ! (nat k + 2) = word_of_int ((i + 1) * n + j)"
        "ind1 ! (nat k + 3) = word_of_int ((i + 1) * n + j)"
        "ind1 ! (nat k + 4) = word_of_int (i * n + j + 1)"
        "ind1 ! (nat k + 5) = word_of_int ((i + 1) * n + j + 1)"
      by blast
    note g = grid_index_quad[OF "1.prems"(1,2) True, folded "1.prems"(4)]
    have j1: "0 \<le> j + 1" "j + 1 \<le> n - 1" using "1.prems"(2) True by simp_all
    have k1: "k + 6 = 6 * (i * (n - 1) + (j + 1))" using "1.prems"(4) by simp
    have len1: "6 * (i * (n - 1) + (n - 1)) \<le> int (length ind1)" using "1.prems"(5) l1 by simp
    from "1.IH"[OF True q "1.prems"(1) j1 k1 len1] obtain ind' where
      r: "quads_of_row n i (j + 1) (k + 6) ind1 = Inr (6 * (i * (n - 1) + (n - 1)), ind')"
      and l': "length ind' = length ind1"
      and o': "\<forall>p. 0 \<le> p \<and> p < k + 6 \<longrightarrow> ind' ! nat p = ind1 ! nat p"
      and f': "\<forall>p. k + 6 \<le> p \<and> p < 6 * (i * (n - 1) + (n - 1)) \<longrightarrow>
          ind' ! nat p = word_of_int (grid_index n p)"
      by blast
    have res: "quads_of_row n i j k ind = Inr (6 * (i * (n - 1) + (n - 1)), ind')"
      using True q r by (subst quads_of_row.simps) simp
    have old: "ind' ! nat p = ind ! nat p" if "0 \<le> p" "p < k" for p
    proof -
      from that o' have "ind' ! nat p = ind1 ! nat p" by simp
      moreover from that k0 have "nat p < nat k" by simp
      ultimately show ?thesis using o1 by simp
    qed
    have new: "ind' ! nat p = word_of_int (grid_index n p)"
      if "k \<le> p" "p < 6 * (i * (n - 1) + (n - 1))" for p
    proof (cases "p < k + 6")
      case False
      with that f' show ?thesis by simp
    next
      case True
      with that k0 o' have s: "ind' ! nat p = ind1 ! nat p" by simp
      from True that(1) consider "p = k" | "p = k + 1" | "p = k + 2" | "p = k + 3"
        | "p = k + 4" | "p = k + 5"
        by linarith
      then show ?thesis
      proof cases
        case 1
        with s e(1) g(1) show ?thesis by simp
      next
        case 2
        then have "nat p = nat k + 1" using k0 by simp
        with s e(2) g(2) 2 show ?thesis by simp
      next
        case 3
        then have "nat p = nat k + 2" using k0 by simp
        with s e(3) g(3) 3 show ?thesis by simp
      next
        case 4
        then have "nat p = nat k + 3" using k0 by simp
        with s e(4) g(4) 4 show ?thesis by simp
      next
        case 5
        then have "nat p = nat k + 4" using k0 by simp
        with s e(5) g(5) 5 show ?thesis by simp
      next
        case 6
        then have "nat p = nat k + 5" using k0 by simp
        with s e(6) g(6) 6 show ?thesis by simp
      qed
    qed
    from res l' l1 old new show ?thesis by simp
  qed
qed

lemma quads_of_grid_fills:
  "0 \<le> i \<Longrightarrow> i \<le> m - 1 \<Longrightarrow> 1 \<le> n \<Longrightarrow> k = 6 * (i * (n - 1)) \<Longrightarrow>
   6 * ((m - 1) * (n - 1)) \<le> int (length ind) \<Longrightarrow>
   \<exists>ind'. quads_of_grid m n i k ind = Inr (6 * ((m - 1) * (n - 1)), ind') \<and>
     length ind' = length ind \<and>
     (\<forall>p. 0 \<le> p \<and> p < k \<longrightarrow> ind' ! nat p = ind ! nat p) \<and>
     (\<forall>p. k \<le> p \<and> p < 6 * ((m - 1) * (n - 1)) \<longrightarrow>
          ind' ! nat p = word_of_int (grid_index n p))"
proof (induction m n i k ind rule: quads_of_grid.induct)
  case (1 m n i k ind)
  show ?case
  proof (cases "i < m - 1")
    case False
    with "1.prems"(2) have "i = m - 1" by simp
    moreover from False have "quads_of_grid m n i k ind = Inr (k, ind)"
      by (subst quads_of_grid.simps) simp
    ultimately show ?thesis using "1.prems"(4) by auto
  next
    case True
    have n1: "0 \<le> n - 1" using "1.prems"(3) by simp
    have k0: "0 \<le> k" using "1.prems"(1,4) n1 by simp
    have mono: "(i + 1) * (n - 1) \<le> (m - 1) * (n - 1)"
      using True n1 by (simp add: mult_right_mono)
    have k': "6 * (i * (n - 1) + (n - 1)) = 6 * ((i + 1) * (n - 1))"
      by (simp add: algebra_simps)
    have len0: "6 * (i * (n - 1) + (n - 1)) \<le> int (length ind)"
      using mono "1.prems"(5) unfolding k' by linarith
    have kk: "k = 6 * (i * (n - 1) + 0)" using "1.prems"(4) by simp
    from quads_of_row_fills[OF "1.prems"(1) _ n1 kk len0] obtain ind1 where
      q: "quads_of_row n i 0 k ind = Inr (6 * (i * (n - 1) + (n - 1)), ind1)"
      and l1: "length ind1 = length ind"
      and o1: "\<forall>p. 0 \<le> p \<and> p < k \<longrightarrow> ind1 ! nat p = ind ! nat p"
      and f1: "\<forall>p. k \<le> p \<and> p < 6 * (i * (n - 1) + (n - 1)) \<longrightarrow>
          ind1 ! nat p = word_of_int (grid_index n p)"
      by auto
    have i1: "0 \<le> i + 1" "i + 1 \<le> m - 1" using "1.prems"(1) True by simp_all
    have len1: "6 * ((m - 1) * (n - 1)) \<le> int (length ind1)" using "1.prems"(5) l1 by simp
    from "1.IH"[OF True q refl i1 "1.prems"(3) k' len1] obtain ind' where
      r: "quads_of_grid m n (i + 1) (6 * (i * (n - 1) + (n - 1))) ind1 =
            Inr (6 * ((m - 1) * (n - 1)), ind')"
      and l': "length ind' = length ind1"
      and o': "\<forall>p. 0 \<le> p \<and> p < 6 * (i * (n - 1) + (n - 1)) \<longrightarrow> ind' ! nat p = ind1 ! nat p"
      and f': "\<forall>p. 6 * (i * (n - 1) + (n - 1)) \<le> p \<and> p < 6 * ((m - 1) * (n - 1)) \<longrightarrow>
          ind' ! nat p = word_of_int (grid_index n p)"
      by blast
    have res: "quads_of_grid m n i k ind = Inr (6 * ((m - 1) * (n - 1)), ind')"
      using True q r by (subst quads_of_grid.simps) simp
    have kle: "k \<le> 6 * (i * (n - 1) + (n - 1))" using "1.prems"(4) n1 by simp
    have old: "ind' ! nat p = ind ! nat p" if "0 \<le> p" "p < k" for p
      using that o' o1 kle by simp
    have new: "ind' ! nat p = word_of_int (grid_index n p)"
      if "k \<le> p" "p < 6 * ((m - 1) * (n - 1))" for p
    proof (cases "p < 6 * (i * (n - 1) + (n - 1))")
      case True
      with that k0 o' f1 show ?thesis by simp
    next
      case False
      with that f' show ?thesis by simp
    qed
    from res l' l1 old new show ?thesis by simp
  qed
qed


text \<open>
  Claim C10. For a grid of \<open>m \<ge> 1\<close> rows and \<open>n \<ge> 1\<close> columns with \<open>m * n\<close> vertices and
  \<open>2 (m - 1) (n - 1)\<close> triangles that passes the assertion \<open>VertexCount < 0xffff\<close>,
  \<open>BuildWavesGeometry\<close> returns: no assignment falls outside the vector. The loops
  assign \<open>6 (m - 1) (n - 1) = 3 * TriangleCount\<close> entries, which is the length of the
  vector, and every entry is the 16-bit image of a value that is at least 0 and less
  than \<open>m * n\<close>, stored without truncation.
\<close>

theorem wave_indices_in_range:
  fixes w :: "'a Waves"
  assumes grid: "1 \<le> RowCount w" "1 \<le> ColumnCount w"
    and counts: "VertexCount w = RowCount w * ColumnCount w"
      "TriangleCount w = 2 * (RowCount w - 1) * (ColumnCount w - 1)"
    and asserted: "VertexCount w < 0xffff"
  shows "\<exists>indices.
    BuildWavesGeometry w =
      Inr (\<lparr>IndexBufferCPU = indices, IndexCount = length indices\<rparr>, 3 * TriangleCount w) \<and>
    int (length indices) = 6 * (RowCount w - 1) * (ColumnCount w - 1) \<and>
    (\<forall>p<length indices.
       indices ! p = word_of_int (grid_index (ColumnCount w) (int p)) \<and>
       uint (indices ! p) = grid_index (ColumnCount w) (int p) \<and>
       0 \<le> grid_index (ColumnCount w) (int p) \<and>
       grid_index (ColumnCount w) (int p) < VertexCount w)"
proof -
  define m where "m = RowCount w"
  define n where "n = ColumnCount w"
  define X where "X = (m - 1) * (n - 1)"
  have X0: "0 \<le> X" unfolding X_def using grid by (simp add: m_def n_def)
  have T: "3 * TriangleCount w = 6 * X"
    unfolding counts(2) X_def m_def n_def by (simp add: mult.assoc)
  have T0: "\<not> 3 * TriangleCount w < 0" using T X0 by simp
  let ?ind0 = "replicate (nat (3 * TriangleCount w)) (0 :: 16 word)"
  have len0: "6 * ((m - 1) * (n - 1)) \<le> int (length ?ind0)"
    using T X0 by (simp add: X_def)
  have k0: "(0::int) = 6 * (0 * (n - 1))" by simp
  have m0: "0 \<le> m - 1" using grid(1) by (simp add: m_def)
  have n1: "1 \<le> n" using grid(2) by (simp add: n_def)
  from quads_of_grid_fills[OF order_refl m0 n1 k0 len0] obtain ind where
    q: "quads_of_grid m n 0 0 ?ind0 = Inr (6 * ((m - 1) * (n - 1)), ind)"
    and l: "length ind = length ?ind0"
    and f: "\<forall>p. 0 \<le> p \<and> p < 6 * ((m - 1) * (n - 1)) \<longrightarrow>
          ind ! nat p = word_of_int (grid_index n p)"
    by blast
  have b: "BuildWavesGeometry w =
      Inr (\<lparr>IndexBufferCPU = ind, IndexCount = length ind\<rparr>, 3 * TriangleCount w)"
    using T0 asserted q T
    by (simp add: BuildWavesGeometry_def m_def[symmetric] n_def[symmetric] X_def)
  have li: "int (length ind) = 6 * X" using l T X0 by simp
  have li': "int (length ind) = 6 * (RowCount w - 1) * (ColumnCount w - 1)"
    using li by (simp add: X_def m_def n_def mult.assoc)
  have e: "ind ! p = word_of_int (grid_index n (int p)) \<and>
       uint (ind ! p) = grid_index n (int p) \<and>
       0 \<le> grid_index n (int p) \<and> grid_index n (int p) < VertexCount w"
    if "p < length ind" for p
  proof -
    from that li have p: "int p < 6 * X" by simp
    have "6 * (m - 1) * (n - 1) = 6 * X" unfolding X_def by (rule mult.assoc)
    with p have p': "int p < 6 * (m - 1) * (n - 1)" by (simp only:)
    have "0 \<le> int p \<and> int p < 6 * ((m - 1) * (n - 1))" using p by (simp add: X_def)
    with f have v: "ind ! nat (int p) = word_of_int (grid_index n (int p))" by blast
    from grid_index_bound[OF _ n1 _ p', of] grid(1)
    have g: "0 \<le> grid_index n (int p)" "grid_index n (int p) < m * n"
      by (simp_all add: m_def)
    from g(2) counts(1) asserted have g16: "grid_index n (int p) < 2 ^ 16"
      by (simp add: m_def n_def)
    have "uint (word_of_int (grid_index n (int p)) :: 16 word) = grid_index n (int p)"
      using g(1) g16 by (simp add: uint_word_of_int_eq take_bit_int_eq_self)
    with v g counts(1) show ?thesis by (simp add: m_def n_def)
  qed
  from b li' e show ?thesis unfolding n_def by blast
qed

theorem wave_indices_in_range_witness:
  "\<exists>indices.
     BuildWavesGeometry example_waves = Inr (\<lparr>IndexBufferCPU = indices, IndexCount = 6\<rparr>, 6) \<and>
     length indices = 6 \<and> uint (indices ! 5) = 3 \<and> uint (indices ! 0) = 0"
proof -
  have grid: "1 \<le> RowCount example_waves" "1 \<le> ColumnCount example_waves"
    and counts: "VertexCount example_waves = RowCount example_waves * ColumnCount example_waves"
      "TriangleCount example_waves =
         2 * (RowCount example_waves - 1) * (ColumnCount example_waves - 1)"
    and asserted: "VertexCount example_waves < 0xffff"
    by (simp_all add: example_waves_def)
  from wave_indices_in_range[OF grid counts asserted] obtain indices where
    b: "BuildWavesGeometry example_waves =
      Inr (\<lparr>IndexBufferCPU = indices, IndexCount = length indices\<rparr>,
           3 * TriangleCount example_waves)"
    and l: "int (length indices) =
      6 * (RowCount example_waves - 1) * (ColumnCount example_waves - 1)"
    and e: "\<forall>p<length indices.
       uint (indices ! p) = grid_index (ColumnCount example_waves) (int p)"
    by blast
  from l have l6: "length indices = 6" by (simp add: example_waves_def)
  from e l6 have "uint (indices ! 5) = grid_index 2 5" "uint (indices ! 0) = grid_index 2 0"
    by (simp_all add: example_waves_def)
  then have "uint (indices ! 5) = 3" "uint (indices ! 0) = 0"
    by (simp_all add: grid_index_def)
  with b l6 show ?thesis by (auto simp: example_waves_def)
qed

section \<open>The fixed-step accumulator\<close>




lemma simulate_simps:
  "dt (simulate stencil h) = dt h" "rows (simulate stencil h) = rows h"
  "cols (simulate stencil h) = cols h"
  "accumulatedTime (simulate stencil h) = accumulatedTime h"
  by (simp_all add: simulate_def)









section \<open>The fixed boundary of the height field\<close>


























end
